theory Spec2Isabelle
  imports Complex_Main "HOL-Library.Char_ord" "HOL-Library.List_Lexorder"
begin

section \<open>Keyframe extraction of \<^verbatim>\<open>video_processor.py\<close>\<close>

text \<open>
  The development embeds \<^verbatim>\<open>SimpleVideoProcessor\<close> of \<^verbatim>\<open>src/video_processor.py\<close>.
  Python floats are modelled as \<^typ>\<open>real\<close> (no NaN, no infinity); the arithmetic on them is
  exact except in the frame index of \<^verbatim>\<open>_fallback_capture\<close>, which is rounded to double
  precision (\<open>round_double\<close> below).  Python ints are \<^typ>\<open>int\<close>, strings \<^typ>\<open>string\<close>.  An image and a colour histogram
  are opaque values of the type parameters \<open>'f\<close> and \<open>'h\<close>.
\<close>

subsection \<open>Configuration (\<^verbatim>\<open>__init__\<close>)\<close>

record config =
  capture_interval_seconds :: real
  similarity_threshold :: real
  replace_sharpness_factor :: real
  replace_text_extra :: int
  min_sharpness :: real

text \<open>The keyword defaults of \<^verbatim>\<open>__init__\<close>.\<close>

definition default_config :: config where
  "default_config =
     \<lparr>capture_interval_seconds = 5,
      similarity_threshold = 0.90,
      replace_sharpness_factor = 1.10,
      replace_text_extra = 10,
      min_sharpness = 50\<rparr>"

subsection \<open>Python arithmetic\<close>

datatype py_error = ValueError | WriteError

text \<open>\<^verbatim>\<open>round(x)\<close> with one argument: the nearest integer, a tie goes to the even one.\<close>

definition py_round :: "real \<Rightarrow> int" where
  "py_round x =
     (let f = \<lfloor>x\<rfloor>; d = x - of_int f
      in if d < 1 / 2 then f
         else if 1 / 2 < d then f + 1
         else if even f then f else f + 1)"

text \<open>\<^verbatim>\<open>int(x)\<close> on a float truncates towards zero.\<close>

definition py_int :: "real \<Rightarrow> int" where
  "py_int x = (if 0 \<le> x then \<lfloor>x\<rfloor> else \<lceil>x\<rceil>)"

text \<open>
  Python floats are IEEE 754 binary64 numbers.  Where the rounding of an operation decides
  which frame is read (the positions of \<^verbatim>\<open>_fallback_capture\<close>) the operation is modelled
  as the exact operation followed by \<open>round_double\<close>: the nearest number with a 53-bit
  significand, a tie going to the even significand.  Overflow and subnormal numbers are
  not modelled; the operands that occur (quotients \<open>i / n\<close> with \<open>n \<le> 20\<close>, frame counts and
  their products) are far from both.
\<close>

text \<open>The number of binary digits of \<open>n\<close>.\<close>

function bit_length :: "nat \<Rightarrow> nat" where
  "bit_length n = (if n = 0 then 0 else Suc (bit_length (n div 2)))"
  by pat_completeness auto
termination
  by (relation "measure id") auto

text \<open>The exponent \<open>e\<close> with \<open>2\<^sup>e \<le> x < 2\<^sup>e\<^sup>+\<^sup>1\<close>, for \<open>x > 0\<close>.\<close>

definition binade :: "real \<Rightarrow> int" where
  "binade x = (if 1 \<le> x then int (bit_length (nat \<lfloor>x\<rfloor>)) - 1
               else - int (bit_length (nat \<lceil>1 / x\<rceil> - 1)))"

definition round_double :: "real \<Rightarrow> real" where
  "round_double x =
     (if x = 0 then 0
      else let e = binade \<bar>x\<bar>
           in of_int (py_round (x * 2 powi (52 - e))) * 2 powi (e - 52))"

text \<open>
  \<^verbatim>\<open>range(start, stop, step)\<close>: a zero step raises \<^verbatim>\<open>ValueError\<close>, a positive step counts
  up while below \<open>stop\<close>, a negative step counts down while above it.
\<close>

function range_up :: "int \<Rightarrow> int \<Rightarrow> int \<Rightarrow> int list" where
  "range_up i stop step =
     (if 0 < step \<and> i < stop then i # range_up (i + step) stop step else [])"
  by pat_completeness auto
termination
  by (relation "measure (\<lambda>(i, stop, step). nat (stop - i))") auto

function range_down :: "int \<Rightarrow> int \<Rightarrow> int \<Rightarrow> int list" where
  "range_down i stop step =
     (if step < 0 \<and> stop < i then i # range_down (i + step) stop step else [])"
  by pat_completeness auto
termination
  by (relation "measure (\<lambda>(i, stop, step). nat (i - stop))") auto

definition py_range :: "int \<Rightarrow> int \<Rightarrow> int \<Rightarrow> py_error + int list" where
  "py_range start stop step =
     (if step = 0 then Inl ValueError
      else if 0 < step then Inr (range_up start stop step)
      else Inr (range_down start stop step))"

subsection \<open>The video source\<close>

text \<open>
  What the code reads from \<^verbatim>\<open>cv2.VideoCapture\<close>: whether it opened, the two properties
  (\<^verbatim>\<open>cap.get\<close> yields \<open>0\<close> for an unknown property) and, for a frame index, the result of
  \<^verbatim>\<open>cap.set(CAP_PROP_POS_FRAMES, idx); cap.read()\<close> (\<open>None\<close> when \<^verbatim>\<open>ret\<close> is false).
\<close>

record 'f video =
  is_opened :: bool
  prop_fps :: real
  prop_frame_count :: real
  read_frame :: "int \<Rightarrow> 'f option"

text \<open>\<^verbatim>\<open>fps = cap.get(cv2.CAP_PROP_FPS) or 25.0\<close>\<close>

definition fps_of :: "'f video \<Rightarrow> real" where
  "fps_of v = (if prop_fps v = 0 then 25.0 else prop_fps v)"

text \<open>\<^verbatim>\<open>total_frames = int(cap.get(cv2.CAP_PROP_FRAME_COUNT) or 0)\<close>\<close>

definition total_frames_of :: "'f video \<Rightarrow> int" where
  "total_frames_of v = (if prop_frame_count v = 0 then 0 else py_int (prop_frame_count v))"

text \<open>\<^verbatim>\<open>duration = (total_frames / fps) if fps else 0\<close>\<close>

definition duration_of :: "int \<Rightarrow> real \<Rightarrow> real" where
  "duration_of total_frames fps = (if fps \<noteq> 0 then of_int total_frames / fps else 0)"

text \<open>\<^verbatim>\<open>interval_frames = max(1, int(round(self.capture_interval_seconds * fps)))\<close>\<close>

definition interval_frames :: "config \<Rightarrow> real \<Rightarrow> int" where
  "interval_frames cfg fps = max 1 (py_round (capture_interval_seconds cfg * fps))"

text \<open>The positions of the main loop: \<^verbatim>\<open>range(0, total_frames, interval_frames)\<close>.\<close>

definition sample_positions :: "config \<Rightarrow> int \<Rightarrow> real \<Rightarrow> py_error + int list" where
  "sample_positions cfg total_frames fps = py_range 0 total_frames (interval_frames cfg fps)"

subsection \<open>Fallback positions (\<^verbatim>\<open>_fallback_capture\<close>)\<close>

text \<open>\<^verbatim>\<open>num_to_capture = min(20, max(1, total_frames // 100))\<close>\<close>

definition num_to_capture :: "int \<Rightarrow> int" where
  "num_to_capture total_frames = min 20 (max 1 (total_frames div 100))"

text \<open>
  \<^verbatim>\<open>frame_idx = int((i / max(1, num_to_capture)) * total_frames)\<close>: the quotient of the two
  integers is rounded to a float, \<^verbatim>\<open>total_frames\<close> is converted to a float, their product is
  rounded, and \<^verbatim>\<open>int\<close> truncates.
\<close>

definition fallback_frame_idx :: "int \<Rightarrow> int \<Rightarrow> int" where
  "fallback_frame_idx total_frames i =
     py_int (round_double
               (round_double (of_int i / of_int (max 1 (num_to_capture total_frames)))
                * round_double (of_int total_frames)))"


subsection \<open>File names\<close>

text \<open>The decimal digits of a natural number, as \<^verbatim>\<open>str\<close> prints them.\<close>

definition digit_char :: "nat \<Rightarrow> char" where
  "digit_char d = char_of (48 + d)"

function str_nat :: "nat \<Rightarrow> string" where
  "str_nat n = (if n < 10 then [digit_char n] else str_nat (n div 10) @ [digit_char (n mod 10)])"
  by pat_completeness auto
termination
  by (relation "measure id") auto

text \<open>The format \<^verbatim>\<open>{n:03d}\<close> for \<open>n \<ge> 0\<close>: zero-padded on the left to at least three digits.\<close>

definition fmt03 :: "nat \<Rightarrow> string" where
  "fmt03 n = replicate (3 - length (str_nat n)) CHR ''0'' @ str_nat n"

text \<open>\<^verbatim>\<open>output_dir = f"{output_name}_slides"\<close>\<close>

definition output_dir_of :: "string \<Rightarrow> string" where
  "output_dir_of output_name = output_name @ ''_slides''"

text \<open>\<^verbatim>\<open>f"{output_dir}/slide_{n:03d}.png"\<close> and \<^verbatim>\<open>f"{output_dir}/slide_fb_{n:03d}.png"\<close>\<close>

definition slide_file :: "string \<Rightarrow> nat \<Rightarrow> string" where
  "slide_file output_dir n = output_dir @ ''/slide_'' @ fmt03 n @ ''.png''"

definition fallback_file :: "string \<Rightarrow> nat \<Rightarrow> string" where
  "fallback_file output_dir n = output_dir @ ''/slide_fb_'' @ fmt03 n @ ''.png''"

subsection \<open>Records of the selection pass\<close>

text \<open>The dict appended to \<^verbatim>\<open>captured\<close>; its keys are the fields (\<open>file_name\<close> for the
  key \<^verbatim>\<open>'file'\<close>).\<close>

record keyframe =
  file_name :: string
  time :: real
  sharpness :: real
  edge_density :: real
  text_amount :: int

text \<open>
  The dict \<^verbatim>\<open>new_info\<close> of a scored sample; the key \<^verbatim>\<open>'file'\<close> is only present once
  the sample has been written.
\<close>

record ('f, 'h) info =
  i_frame :: 'f
  i_time :: real
  i_sharpness :: real
  i_edge_density :: real
  i_text_amount :: int
  i_text_content :: string
  i_hist :: 'h
  i_file :: "string option"

text \<open>
  The utility methods that the file refers to but does not contain
  (\<^verbatim>\<open>_frame_sharpness\<close>, \<^verbatim>\<open>_edge_density\<close>, \<^verbatim>\<open>_text_amount\<close>, \<^verbatim>\<open>_histogram\<close>,
  \<^verbatim>\<open>_hist_correlation\<close>, \<^verbatim>\<open>_is_new_better\<close>) and the flag \<^verbatim>\<open>OCR_AVAILABLE\<close> are
  parameters.  \<^verbatim>\<open>_text_amount\<close> yields \<open>None\<close> where it raises.
\<close>

record ('f, 'h) helpers =
  frame_sharpness :: "'f \<Rightarrow> real"
  edge_density_of :: "'f \<Rightarrow> real"
  ocr_available :: bool
  text_amount_of :: "'f \<Rightarrow> (int \<times> string) option"
  histogram :: "'f \<Rightarrow> 'h"
  hist_correlation :: "'h \<Rightarrow> 'h \<Rightarrow> real"
  is_new_better :: "('f, 'h) info \<Rightarrow> ('f, 'h) info \<Rightarrow> bool"

subsection \<open>Writing images\<close>

text \<open>
  \<^verbatim>\<open>cv2.imwrite(filename, frame)\<close> either stores the image and returns true, or stores
  nothing and returns false, or raises.  The code never reads the returned flag.  Which
  of the three happens is a parameter, asked by file name and by the frame index of the
  iteration that writes.
\<close>

datatype write_outcome = Written | NotWritten | WriteRaises

type_synonym 'f disk = "string \<rightharpoonup> 'f"

definition imwrite ::
  "(string \<Rightarrow> int \<Rightarrow> write_outcome) \<Rightarrow> int \<Rightarrow> string \<Rightarrow> 'f \<Rightarrow> 'f disk \<Rightarrow> py_error + 'f disk" where
  "imwrite W frame_idx filename frame d =
     (case W filename frame_idx of
        Written \<Rightarrow> Inr (d(filename \<mapsto> frame))
      | NotWritten \<Rightarrow> Inr d
      | WriteRaises \<Rightarrow> Inl WriteError)"

subsection \<open>The loop body of \<^verbatim>\<open>extract_best_frames\<close>\<close>

record ('f, 'h) sel_state =
  captured :: "keyframe list"
  last_saved :: "('f, 'h) info option"
  disk :: "'f disk"

text \<open>The OCR block: \<open>(0, "")\<close> without OCR or when \<^verbatim>\<open>_text_amount\<close> raises.\<close>

definition text_features :: "('f, 'h) helpers \<Rightarrow> 'f \<Rightarrow> int \<times> string" where
  "text_features H frame =
     (if ocr_available H
      then (case text_amount_of H frame of Some r \<Rightarrow> r | None \<Rightarrow> (0, []))
      else (0, []))"

definition make_info :: "('f, 'h) helpers \<Rightarrow> real \<Rightarrow> int \<Rightarrow> 'f \<Rightarrow> ('f, 'h) info" where
  "make_info H fps frame_idx frame =
     \<lparr>i_frame = frame,
      i_time = of_int frame_idx / fps,
      i_sharpness = frame_sharpness H frame,
      i_edge_density = edge_density_of H frame,
      i_text_amount = fst (text_features H frame),
      i_text_content = snd (text_features H frame),
      i_hist = histogram H frame,
      i_file = None\<rparr>"

text \<open>Lines 129--140 and 149--159: write a new slide, append its record, make it the incumbent.\<close>

definition save_new ::
  "(string \<Rightarrow> int \<Rightarrow> write_outcome) \<Rightarrow> string \<Rightarrow> int \<Rightarrow> ('f, 'h) info \<Rightarrow> ('f, 'h) sel_state
     \<Rightarrow> py_error + ('f, 'h) sel_state" where
  "save_new W output_dir frame_idx new_info s =
     (let filename = slide_file output_dir (length (captured s) + 1)
      in case imwrite W frame_idx filename (i_frame new_info) (disk s) of
           Inl e \<Rightarrow> Inl e
         | Inr d \<Rightarrow>
             Inr \<lparr>captured = captured s @
                    [\<lparr>file_name = filename, time = i_time new_info, sharpness = i_sharpness new_info,
                      edge_density = i_edge_density new_info,
                      text_amount = i_text_amount new_info\<rparr>],
                  last_saved = Some (new_info\<lparr>i_file := Some filename\<rparr>),
                  disk = d\<rparr>)"

text \<open>\<^verbatim>\<open>captured[-1].update({...})\<close>\<close>

definition update_last :: "('f, 'h) info \<Rightarrow> keyframe list \<Rightarrow> keyframe list" where
  "update_last new_info cs =
     cs[length cs - 1 :=
          (last cs)\<lparr>time := i_time new_info, sharpness := i_sharpness new_info,
                    edge_density := i_edge_density new_info,
                    text_amount := i_text_amount new_info\<rparr>]"

text \<open>
  Lines 167--184, the \<^verbatim>\<open>try\<close> block: an exception of the write is caught and leaves the
  state as it was.
\<close>

definition try_replace ::
  "(string \<Rightarrow> int \<Rightarrow> write_outcome) \<Rightarrow> int \<Rightarrow> ('f, 'h) info \<Rightarrow> ('f, 'h) info \<Rightarrow> ('f, 'h) sel_state
     \<Rightarrow> ('f, 'h) sel_state" where
  "try_replace W frame_idx new_info ls s =
     (case i_file ls of
        None \<Rightarrow> s
      | Some filename \<Rightarrow>
          if filename = [] then s
          else (case imwrite W frame_idx filename (i_frame new_info) (disk s) of
                  Inl e \<Rightarrow> s
                | Inr d \<Rightarrow>
                    \<lparr>captured = (if captured s \<noteq> [] then update_last new_info (captured s)
                                 else captured s),
                     last_saved = Some (new_info\<lparr>i_file := Some filename\<rparr>),
                     disk = d\<rparr>))"

definition process_sample ::
  "config \<Rightarrow> ('f, 'h) helpers \<Rightarrow> (string \<Rightarrow> int \<Rightarrow> write_outcome) \<Rightarrow> 'f video \<Rightarrow> real \<Rightarrow> string
     \<Rightarrow> int \<Rightarrow> ('f, 'h) sel_state \<Rightarrow> py_error + ('f, 'h) sel_state" where
  "process_sample cfg H W v fps output_dir frame_idx s =
     (case read_frame v frame_idx of
        None \<Rightarrow> Inr s
      | Some frame \<Rightarrow>
          if frame_sharpness H frame < min_sharpness cfg then Inr s
          else
            let new_info = make_info H fps frame_idx frame
            in case last_saved s of
                 None \<Rightarrow> save_new W output_dir frame_idx new_info s
               | Some ls \<Rightarrow>
                   let corr = hist_correlation H (i_hist new_info) (i_hist ls)
                   in if corr < similarity_threshold cfg
                      then save_new W output_dir frame_idx new_info s
                      else if similarity_threshold cfg \<le> corr
                      then (if is_new_better H new_info ls
                            then Inr (try_replace W frame_idx new_info ls s)
                            else Inr s)
                      else Inr s)"

text \<open>The \<^verbatim>\<open>for\<close> loop over the positions; an exception leaves the loop.\<close>

fun run_samples ::
  "(int \<Rightarrow> 's \<Rightarrow> py_error + 's) \<Rightarrow> int list \<Rightarrow> 's \<Rightarrow> py_error + 's" where
  "run_samples body [] s = Inr s"
| "run_samples body (idx # idxs) s =
     (case body idx s of Inl e \<Rightarrow> Inl e | Inr s' \<Rightarrow> run_samples body idxs s')"

subsection \<open>\<^verbatim>\<open>_fallback_capture\<close>\<close>

text \<open>
  The state of the fallback loop is \<^verbatim>\<open>captured_frames\<close> and the disk.  The capture that
  it opens on the same path reads the same frames.
\<close>

definition fallback_sample ::
  "config \<Rightarrow> ('f, 'h) helpers \<Rightarrow> (string \<Rightarrow> int \<Rightarrow> write_outcome) \<Rightarrow> 'f video \<Rightarrow> real \<Rightarrow> string
     \<Rightarrow> int \<Rightarrow> int \<Rightarrow> keyframe list \<times> 'f disk \<Rightarrow> py_error + keyframe list \<times> 'f disk" where
  "fallback_sample cfg H W v fps output_dir total_frames i st =
     (let frame_idx = fallback_frame_idx total_frames i
      in case read_frame v frame_idx of
           None \<Rightarrow> Inr st
         | Some frame \<Rightarrow>
             if frame_sharpness H frame < min_sharpness cfg then Inr st
             else
               let filename = fallback_file output_dir (length (fst st) + 1)
               in case imwrite W frame_idx filename frame (snd st) of
                    Inl e \<Rightarrow> Inl e
                  | Inr d \<Rightarrow>
                      Inr (fst st @
                             [\<lparr>file_name = filename,
                               time = of_int frame_idx / (if fps = 0 then 1 else fps),
                               sharpness = frame_sharpness H frame,
                               edge_density = edge_density_of H frame,
                               text_amount = fst (text_features H frame)\<rparr>], d))"

definition fallback_capture ::
  "config \<Rightarrow> ('f, 'h) helpers \<Rightarrow> (string \<Rightarrow> int \<Rightarrow> write_outcome) \<Rightarrow> 'f video \<Rightarrow> string
     \<Rightarrow> int \<Rightarrow> real \<Rightarrow> 'f disk \<Rightarrow> py_error + keyframe list \<times> 'f disk" where
  "fallback_capture cfg H W v output_dir total_frames fps d =
     run_samples (fallback_sample cfg H W v fps output_dir total_frames)
       (range_up 0 (num_to_capture total_frames) 1) ([], d)"

subsection \<open>\<^verbatim>\<open>extract_best_frames\<close>\<close>

text \<open>
  Lines 196--198: a fallback record is appended unless its file name is already in
  \<^verbatim>\<open>captured\<close>, which grows while the loop runs.
\<close>

fun merge_fallback :: "keyframe list \<Rightarrow> keyframe list \<Rightarrow> keyframe list" where
  "merge_fallback cs [] = cs"
| "merge_fallback cs (f # fs) =
     merge_fallback (if file_name f \<notin> set (map file_name cs) then cs @ [f] else cs) fs"

text \<open>The state after the main loop, before the fallback.\<close>

definition content_pass ::
  "config \<Rightarrow> ('f, 'h) helpers \<Rightarrow> (string \<Rightarrow> int \<Rightarrow> write_outcome) \<Rightarrow> 'f video \<Rightarrow> string
     \<Rightarrow> 'f disk \<Rightarrow> py_error + ('f, 'h) sel_state" where
  "content_pass cfg H W v output_name d0 =
     (case sample_positions cfg (total_frames_of v) (fps_of v) of
        Inl e \<Rightarrow> Inl e
      | Inr ps \<Rightarrow>
          run_samples (process_sample cfg H W v (fps_of v) (output_dir_of output_name)) ps
            \<lparr>captured = [], last_saved = None, disk = d0\<rparr>)"

text \<open>
  The result is \<open>Inl\<close> for an exception that escapes, otherwise the returned value
  (\<open>None\<close> when the video cannot be opened) and the disk.
\<close>

definition extract_best_frames ::
  "config \<Rightarrow> ('f, 'h) helpers \<Rightarrow> (string \<Rightarrow> int \<Rightarrow> write_outcome) \<Rightarrow> 'f video \<Rightarrow> string
     \<Rightarrow> 'f disk \<Rightarrow> py_error + keyframe list option \<times> 'f disk" where
  "extract_best_frames cfg H W v output_name d0 =
     (if \<not> is_opened v then Inr (None, d0)
      else case content_pass cfg H W v output_name d0 of
             Inl e \<Rightarrow> Inl e
           | Inr s \<Rightarrow>
               if length (captured s) < 3
               then (case fallback_capture cfg H W v (output_dir_of output_name)
                            (total_frames_of v) (fps_of v) (disk s) of
                       Inl e \<Rightarrow> Inl e
                     | Inr (fallback, d) \<Rightarrow> Inr (Some (merge_fallback (captured s) fallback), d))
               else Inr (Some (captured s), disk s))"

subsection \<open>\<^verbatim>\<open>create_pdf\<close> and \<^verbatim>\<open>process_video_to_pdf\<close>\<close>

text \<open>
  What the pipeline does outside the extraction is recorded as a list of events: a call of
  \<^verbatim>\<open>img2pdf.convert\<close> with the sorted file names, and the removal of the downloaded video.
\<close>

datatype event = PdfConvert "string list" | RemoveVideo string

text \<open>\<^verbatim>\<open>files_sorted = sorted(files)\<close>: strings compare character by character.\<close>

definition files_sorted :: "keyframe list \<Rightarrow> string list" where
  "files_sorted image_files = sort (map file_name image_files)"

text \<open>
  \<^verbatim>\<open>create_pdf\<close> on a list of dicts; \<open>convert_ok\<close> says whether writing the PDF
  succeeds (a failure is caught and gives \<open>None\<close>).
\<close>

definition create_pdf :: "bool \<Rightarrow> keyframe list \<Rightarrow> string \<Rightarrow> string option \<times> event list" where
  "create_pdf convert_ok image_files output_name =
     (if image_files = [] then (None, [])
      else (if convert_ok then Some (output_name @ ''_notes.pdf'') else None,
            [PdfConvert (files_sorted image_files)]))"

text \<open>
  \<^verbatim>\<open>process_video_to_pdf\<close>.  \<^verbatim>\<open>download_video\<close> is not in the file: its result is the
  parameter \<open>video_file\<close>, and \<open>extract\<close> is \<^verbatim>\<open>extract_best_frames\<close> applied to it.
  \<open>video_exists\<close> is the answer of \<^verbatim>\<open>os.path.exists(video_file)\<close>.
\<close>

definition process_video_to_pdf ::
  "string option \<Rightarrow> (string \<Rightarrow> py_error + keyframe list option \<times> 'f disk) \<Rightarrow> bool \<Rightarrow> bool
     \<Rightarrow> string \<Rightarrow> py_error + string option \<times> event list" where
  "process_video_to_pdf video_file extract convert_ok video_exists content_name =
     (case video_file of
        None \<Rightarrow> Inr (None, [])
      | Some path \<Rightarrow>
          if path = [] then Inr (None, [])
          else (case extract path of
                  Inl e \<Rightarrow> Inl e
                | Inr (frames_info, d) \<Rightarrow>
                    (case frames_info of
                       None \<Rightarrow> Inr (None, [])
                     | Some frames \<Rightarrow>
                         if frames = [] then Inr (None, [])
                         else
                           let (pdf_file, evs) = create_pdf convert_ok frames content_name
                           in Inr (pdf_file,
                                   evs @ (if video_exists then [RemoveVideo path] else [])))))"

subsection \<open>Quality comparator\<close>

text \<open>
  Modelled from the spec: the method \<^verbatim>\<open>_is_new_better\<close> is called by the file but its body
  is not part of it.  The definition follows section 4.3 of the specification (Quality
  Comparator): the candidate improves on the incumbent when its sharpness exceeds the
  incumbent's sharpness times \<open>replace_sharpness_factor\<close>, or its text amount exceeds the
  incumbent's text amount plus \<open>replace_text_extra\<close>.
\<close>

definition is_improvement :: "('f, 'h) info \<Rightarrow> ('f, 'h) info \<Rightarrow> config \<Rightarrow> bool" where
  "is_improvement candidate incumbent cfg \<longleftrightarrow>
     i_sharpness incumbent * replace_sharpness_factor cfg < i_sharpness candidate \<or>
     i_text_amount incumbent + replace_text_extra cfg < i_text_amount candidate"

subsection \<open>Invariant of the main loop\<close>

text \<open>
  The \<open>k\<close>-th record carries the \<open>k\<close>-th slide name, and the incumbent, when there is
  one, is the sample behind the last record.
\<close>

definition selector_inv :: "string \<Rightarrow> ('f, 'h) sel_state \<Rightarrow> bool" where
  "selector_inv output_dir s \<longleftrightarrow>
     map file_name (captured s) = map (slide_file output_dir) [1..<length (captured s) + 1] \<and>
     (case last_saved s of
        None \<Rightarrow> captured s = []
      | Some ls \<Rightarrow> captured s \<noteq> [] \<and> i_file ls = Some (file_name (last (captured s))))"

subsection \<open>Concrete inputs\<close>

text \<open>
  A frame of the example videos is a pair of its sharpness and the scene it shows.  Two
  frames correlate fully when they show the same scene and not at all otherwise; there is
  no OCR; the quality comparator is that of the specification with the default thresholds.
\<close>

definition demo_helpers :: "(nat \<times> nat, nat) helpers" where
  "demo_helpers =
     \<lparr>frame_sharpness = (\<lambda>f. real (fst f)),
      edge_density_of = (\<lambda>f. 0),
      ocr_available = False,
      text_amount_of = (\<lambda>f. None),
      histogram = snd,
      hist_correlation = (\<lambda>a b. if a = b then 1 else 0),
      is_new_better = (\<lambda>n l. is_improvement n l default_config)\<rparr>"

text \<open>
  Fifteen seconds at 25 fps showing one scene; sampled every 125 frames, the frame at 125
  is 20 percent sharper than the first and the frame at 250 only 5 percent.
\<close>

definition still_video :: "(nat \<times> nat) video" where
  "still_video =
     \<lparr>is_opened = True, prop_fps = 25, prop_frame_count = 375,
      read_frame = (\<lambda>i. if i = 0 then Some (100, 1)
                         else if i = 125 then Some (120, 1)
                         else if i = 250 then Some (105, 1) else None)\<rparr>"

text \<open>Every write succeeds.\<close>

definition all_written :: "string \<Rightarrow> int \<Rightarrow> write_outcome" where
  "all_written filename frame_idx = Written"

text \<open>The write of the iteration at frame 125 stores nothing and returns false.\<close>

definition silent_failure_at_125 :: "string \<Rightarrow> int \<Rightarrow> write_outcome" where
  "silent_failure_at_125 filename frame_idx = (if frame_idx = 125 then NotWritten else Written)"

text \<open>The state of the loop on \<open>still_video\<close> after the sample at frame 0.\<close>

definition first_slide_state :: "(nat \<times> nat, nat) sel_state" where
  "first_slide_state =
     \<lparr>captured =
        [\<lparr>file_name = ''x_slides/slide_001.png'', time = 0, sharpness = 100,
          edge_density = 0, text_amount = 0\<rparr>],
      last_saved =
        Some \<lparr>i_frame = (100, 1), i_time = 0, i_sharpness = 100, i_edge_density = 0,
              i_text_amount = 0, i_text_content = [], i_hist = 1,
              i_file = Some ''x_slides/slide_001.png''\<rparr>,
      disk = [''x_slides/slide_001.png'' \<mapsto> (100, 1)]\<rparr>"

text \<open>The default configuration with a capture interval of a hundredth of a second.\<close>

definition tiny_interval_config :: config where
  "tiny_interval_config = default_config\<lparr>capture_interval_seconds := 0.01\<rparr>"

text \<open>Fifteen seconds at 25 fps in which every frame is below the sharpness threshold.\<close>

definition blurry_video :: "(nat \<times> nat) video" where
  "blurry_video =
     \<lparr>is_opened = True, prop_fps = 25, prop_frame_count = 375,
      read_frame = (\<lambda>i. Some (10, 1))\<rparr>"

text \<open>The same file when the capture cannot be opened.\<close>

definition unopened_video :: "(nat \<times> nat) video" where
  "unopened_video = blurry_video\<lparr>is_opened := False\<rparr>"

subsection \<open>Auxiliary notions for the statements\<close>

text \<open>Reading a decimal numeral back; the inverse of \<open>fmt03\<close>.\<close>

definition digits_value :: "string \<Rightarrow> nat" where
  "digits_value s = foldl (\<lambda>a c. 10 * a + (of_char c - 48)) 0 s"

text \<open>The list that a run returns (empty when it returns \<open>None\<close> or raises).\<close>

definition frames_of :: "py_error + keyframe list option \<times> 'f disk \<Rightarrow> keyframe list" where
  "frames_of r = (case r of Inr (Some ks, d) \<Rightarrow> ks | _ \<Rightarrow> [])"

text \<open>
  The number of records that \<^verbatim>\<open>_fallback_capture\<close> returns in a run of
  \<^verbatim>\<open>extract_best_frames\<close>; \<open>0\<close> when it is not called.
\<close>

definition fallback_count ::
  "config \<Rightarrow> ('f, 'h) helpers \<Rightarrow> (string \<Rightarrow> int \<Rightarrow> write_outcome) \<Rightarrow> 'f video \<Rightarrow> string
     \<Rightarrow> 'f disk \<Rightarrow> nat" where
  "fallback_count cfg H W v output_name d0 =
     (case content_pass cfg H W v output_name d0 of
        Inl e \<Rightarrow> 0
      | Inr s \<Rightarrow>
          if length (captured s) < 3
          then (case fallback_capture cfg H W v (output_dir_of output_name)
                       (total_frames_of v) (fps_of v) (disk s) of
                  Inl e \<Rightarrow> 0
                | Inr (fallback, d) \<Rightarrow> length fallback)
          else 0)"

text \<open>
  A video of \<open>n\<close> frames at the given rate in which every frame is sharp and shows a
  scene of its own (the scene of frame \<open>i\<close> is \<open>i\<close>).
\<close>

definition slideshow_video :: "real \<Rightarrow> int \<Rightarrow> (nat \<times> nat) video" where
  "slideshow_video rate n =
     \<lparr>is_opened = True, prop_fps = rate, prop_frame_count = of_int n,
      read_frame = (\<lambda>i. Some (100, nat i))\<rparr>"

text \<open>Fifteen seconds at 24.08 fps: 361 frames.\<close>

definition odd_rate_video :: "(nat \<times> nat) video" where
  "odd_rate_video = slideshow_video 24.08 361"

text \<open>A lecture of 5000 seconds at 25 fps: 125000 frames, sampled every 125 frames.\<close>

definition long_slideshow :: "(nat \<times> nat) video" where
  "long_slideshow = slideshow_video 25 125000"

section \<open>Properties\<close>

subsection \<open>Sampling positions\<close>

declare bit_length.simps [simp del]
declare range_up.simps [simp del]
declare range_down.simps [simp del]
declare str_nat.simps [simp del]

lemma range_up_lower: "x \<in> set (range_up i stop step) \<Longrightarrow> i \<le> x"
proof (induction i stop step rule: range_up.induct)
  case (1 i stop step)
  show ?case
  proof (cases "0 < step \<and> i < stop")
    case True
    with "1.prems" have "x = i \<or> x \<in> set (range_up (i + step) stop step)"
      by (subst (asm) range_up.simps) auto
    with True "1.IH" show ?thesis by auto
  next
    case False
    with "1.prems" show ?thesis by (subst (asm) range_up.simps) auto
  qed
qed

lemma range_up_strict: "sorted_wrt (<) (range_up i stop step)"
proof (induction i stop step rule: range_up.induct)
  case (1 i stop step)
  show ?case
  proof (cases "0 < step \<and> i < stop")
    case True
    have "\<forall>x \<in> set (range_up (i + step) stop step). i < x"
      using range_up_lower [of _ "i + step" stop step] True by force
    with True "1.IH" show ?thesis by (subst range_up.simps) simp
  next
    case False
    then show ?thesis by (subst range_up.simps) auto
  qed
qed

lemma range_up_length: "0 < step \<Longrightarrow> length (range_up i stop step) = nat ((stop - i + step - 1) div step)"
proof (induction i stop step rule: range_up.induct)
  case (1 i stop step)
  show ?case
  proof (cases "i < stop")
    case True
    have eq: "stop - i + step - 1 = (stop - (i + step) + step - 1) + step"
      by simp
    have "(stop - i + step - 1) div step = (stop - (i + step) + step - 1) div step + 1"
      using "1.prems" by (simp only: eq div_add_self2)
    moreover have "0 \<le> (stop - (i + step) + step - 1) div step"
      using True "1.prems" by (simp add: pos_imp_zdiv_nonneg_iff)
    ultimately show ?thesis using True "1.prems" "1.IH"
      by (subst range_up.simps) (simp add: nat_add_distrib)
  next
    case False
    have "(stop - i + step - 1) div step \<le> 0"
    proof (cases "stop - i + step - 1 < 0")
      case True
      then show ?thesis using "1.prems" by (simp add: div_neg_pos_less0 less_imp_le)
    next
      case F: False
      with False have "(stop - i + step - 1) div step = 0"
        by (intro div_pos_pos_trivial) auto
      then show ?thesis by simp
    qed
    with False show ?thesis by (subst range_up.simps) simp
  qed
qed

lemma range_up_length_le: "0 < step \<Longrightarrow> length (range_up i stop step) \<le> nat (stop - i)"
proof (induction i stop step rule: range_up.induct)
  case (1 i stop step)
  show ?case
  proof (cases "i < stop")
    case True
    with "1.prems" "1.IH" show ?thesis by (subst range_up.simps) auto
  next
    case False
    then show ?thesis by (subst range_up.simps) simp
  qed
qed

lemma interval_frames_pos: "1 \<le> interval_frames cfg fps"
  by (simp add: interval_frames_def)

lemma range_up_unit: "range_up i stop 1 = [i..stop - 1]"
proof (induction i stop "1::int" rule: range_up.induct)
  case (1 i stop)
  show ?case
  proof (cases "i < stop")
    case True
    with 1 show ?thesis by (subst range_up.simps) (simp add: upto_rec1 [of i])
  next
    case False
    then show ?thesis by (subst range_up.simps) simp
  qed
qed


text \<open>
  Claim C10.  Whatever the frame rate and the capture interval, also when
  \<^verbatim>\<open>round(capture_interval_seconds * fps)\<close> is \<open>0\<close>, the sampling step is at least one frame;
  so \<^verbatim>\<open>range\<close> raises no \<^verbatim>\<open>ValueError\<close>, the positions of the main loop increase strictly,
  and the loop makes at most \<open>total_frames\<close> iterations.
\<close>

theorem sampling_step_clamped:
  "1 \<le> interval_frames cfg fps \<and>
   (\<exists>ps. sample_positions cfg total_frames fps = Inr ps \<and> sorted_wrt (<) ps \<and>
         length ps \<le> nat total_frames)"
proof -
  have pos: "0 < interval_frames cfg fps"
    using interval_frames_pos [of cfg fps] by simp
  then have "sample_positions cfg total_frames fps =
      Inr (range_up 0 total_frames (interval_frames cfg fps))"
    by (simp add: sample_positions_def py_range_def)
  moreover have "length (range_up 0 total_frames (interval_frames cfg fps)) \<le> nat total_frames"
    using range_up_length_le [OF pos, of 0 total_frames] by simp
  ultimately show ?thesis
    using interval_frames_pos range_up_strict by blast
qed

text \<open>An interval of 0.01 s at 30 fps rounds to 0 frames and is clamped to 1.\<close>

theorem sampling_step_clamped_witness:
  "py_round (capture_interval_seconds tiny_interval_config * 30) = 0 \<and>
   interval_frames tiny_interval_config 30 = 1 \<and>
   sample_positions tiny_interval_config 3 30 = Inr [0, 1, 2]"
proof -
  have r: "py_round (capture_interval_seconds tiny_interval_config * 30) = 0"
    by (simp add: tiny_interval_config_def default_config_def py_round_def Let_def)
  have i: "interval_frames tiny_interval_config 30 = 1"
    by (simp add: interval_frames_def r)
  from sampling_step_clamped [of tiny_interval_config 30 3]
  obtain ps where "sample_positions tiny_interval_config 3 30 = Inr ps" by blast
  have "sample_positions tiny_interval_config 3 30 = Inr [0, 1, 2]"
    by (simp add: sample_positions_def py_range_def i range_up_unit upto_rec1)
  with r i show ?thesis by simp
qed



subsection \<open>The loop body\<close>

lemma fmt03_1: "fmt03 (Suc 0) = ''001''"
  by code_simp

lemma slide_file_nonempty: "slide_file output_dir n \<noteq> []"
  by (simp add: slide_file_def)

lemma update_last_snoc:
  "update_last new_info (xs @ [x]) =
     xs @ [x\<lparr>time := i_time new_info, sharpness := i_sharpness new_info,
              edge_density := i_edge_density new_info,
              text_amount := i_text_amount new_info\<rparr>]"
  by (simp add: update_last_def)

lemma update_last_Nil_iff: "update_last new_info cs = [] \<longleftrightarrow> cs = []"
  by (simp add: update_last_def)

lemma update_last_props:
  assumes "cs \<noteq> []"
  shows "length (update_last new_info cs) = length cs"
    and "butlast (update_last new_info cs) = butlast cs"
    and "last (update_last new_info cs) =
           (last cs)\<lparr>time := i_time new_info, sharpness := i_sharpness new_info,
                     edge_density := i_edge_density new_info,
                     text_amount := i_text_amount new_info\<rparr>"
    and "map file_name (update_last new_info cs) = map file_name cs"
proof -
  from assms obtain xs x where cs: "cs = xs @ [x]"
    by (metis append_butlast_last_id)
  show "length (update_last new_info cs) = length cs"
    by (simp add: update_last_def)
  show "butlast (update_last new_info cs) = butlast cs"
    unfolding cs update_last_snoc by simp
  show "last (update_last new_info cs) =
           (last cs)\<lparr>time := i_time new_info, sharpness := i_sharpness new_info,
                     edge_density := i_edge_density new_info,
                     text_amount := i_text_amount new_info\<rparr>"
    unfolding cs update_last_snoc by simp
  show "map file_name (update_last new_info cs) = map file_name cs"
    unfolding cs update_last_snoc by simp
qed

lemma run_samples_invariant:
  assumes step: "\<And>idx s s'. P s \<Longrightarrow> body idx s = Inr s' \<Longrightarrow> P s'"
  shows "P s \<Longrightarrow> run_samples body ps s = Inr s' \<Longrightarrow> P s'"
proof (induction ps arbitrary: s)
  case Nil
  then show ?case by simp
next
  case (Cons idx ps)
  from Cons.prems(2) obtain s1 where b: "body idx s = Inr s1"
    and r: "run_samples body ps s1 = Inr s'"
    by (auto split: sum.splits)
  from step [OF Cons.prems(1) b] have "P s1" .
  from Cons.IH [OF this r] show ?case .
qed

lemma save_new_inv:
  assumes "selector_inv output_dir s"
    and "save_new W output_dir frame_idx new_info s = Inr s'"
  shows "selector_inv output_dir s'"
proof -
  from assms(2) obtain d where s': "s' =
      \<lparr>captured = captured s @
          [\<lparr>file_name = slide_file output_dir (length (captured s) + 1), time = i_time new_info,
            sharpness = i_sharpness new_info, edge_density = i_edge_density new_info,
            text_amount = i_text_amount new_info\<rparr>],
       last_saved = Some (new_info\<lparr>i_file := Some (slide_file output_dir (length (captured s) + 1))\<rparr>),
       disk = d\<rparr>"
    by (auto simp: save_new_def Let_def split: sum.splits)
  from assms(1) show ?thesis
    by (simp add: selector_inv_def s')
qed

lemma try_replace_inv:
  assumes "selector_inv output_dir s" and "last_saved s = Some ls"
  shows "selector_inv output_dir (try_replace W frame_idx new_info ls s)"
proof -
  from assms have ne: "captured s \<noteq> []"
    and f: "i_file ls = Some (file_name (last (captured s)))"
    by (simp_all add: selector_inv_def)
  show ?thesis
    using assms(1) ne f
    by (auto simp: try_replace_def selector_inv_def update_last_props update_last_Nil_iff
        split: sum.splits)
qed

lemma process_sample_inv:
  assumes "selector_inv output_dir s"
    and "process_sample cfg H W v fps output_dir frame_idx s = Inr s'"
  shows "selector_inv output_dir s'"
  using assms
  by (auto simp: process_sample_def Let_def save_new_inv try_replace_inv
      split: option.splits if_splits)

lemma init_inv: "selector_inv output_dir \<lparr>captured = [], last_saved = None, disk = d0\<rparr>"
  by (simp add: selector_inv_def)

lemma run_selector_inv:
  assumes "run_samples (process_sample cfg H W v fps output_dir) ps
             \<lparr>captured = [], last_saved = None, disk = d0\<rparr> = Inr s"
  shows "selector_inv output_dir s"
  using run_samples_invariant [where P = "selector_inv output_dir", OF _ init_inv assms]
    process_sample_inv by blast

text \<open>
  Claim C3.  While an incumbent exists, a decoded sample whose similarity to the incumbent
  is at or above the threshold and that the quality comparator does not judge better
  leaves the whole state as it was: the list of records (its length and every record), the
  incumbent and the stored images.
\<close>

theorem rejection_leaves_state:
  assumes "last_saved s = Some ls"
    and "read_frame v frame_idx = Some frame"
    and "similarity_threshold cfg \<le> hist_correlation H (histogram H frame) (i_hist ls)"
    and "\<not> is_new_better H (make_info H fps frame_idx frame) ls"
  shows "process_sample cfg H W v fps output_dir frame_idx s = Inr s"
  using assms by (simp add: process_sample_def Let_def make_info_def)

lemmas demo_defs = demo_helpers_def still_video_def default_config_def make_info_def
  text_features_def save_new_def imwrite_def all_written_def slide_file_def fmt03_1
  is_improvement_def try_replace_def update_last_def silent_failure_at_125_def

lemma first_slide_run:
  "run_samples (process_sample default_config demo_helpers all_written still_video 25 ''x_slides'')
     [0] \<lparr>captured = [], last_saved = None, disk = Map.empty\<rparr> = Inr first_slide_state"
  by (simp add: process_sample_def first_slide_state_def Let_def demo_defs)

text \<open>
  Claim C4.  In a state reached by the main loop, a sharp enough sample that is similar to
  the incumbent, judged better, and whose write succeeds replaces in place: the list keeps
  its length and all records but the last, the last record keeps its file name (which is
  the slide name of its position, its sequence index), and its time, sharpness, edge
  density and text amount become the candidate's; the image under that name is the new frame.
\<close>

theorem replacement_in_place:
  assumes run: "run_samples (process_sample cfg H W v fps output_dir) ps
                  \<lparr>captured = [], last_saved = None, disk = d0\<rparr> = Inr s"
    and ls: "last_saved s = Some ls"
    and rd: "read_frame v frame_idx = Some frame"
    and sharp: "\<not> frame_sharpness H frame < min_sharpness cfg"
    and sim: "similarity_threshold cfg \<le> hist_correlation H (histogram H frame) (i_hist ls)"
    and better: "is_new_better H (make_info H fps frame_idx frame) ls"
    and wr: "W (file_name (last (captured s))) frame_idx = Written"
  shows "\<exists>s'. process_sample cfg H W v fps output_dir frame_idx s = Inr s' \<and>
           length (captured s') = length (captured s) \<and>
           butlast (captured s') = butlast (captured s) \<and>
           file_name (last (captured s')) = file_name (last (captured s)) \<and>
           file_name (last (captured s')) = slide_file output_dir (length (captured s')) \<and>
           time (last (captured s')) = i_time (make_info H fps frame_idx frame) \<and>
           sharpness (last (captured s')) = i_sharpness (make_info H fps frame_idx frame) \<and>
           edge_density (last (captured s')) = i_edge_density (make_info H fps frame_idx frame) \<and>
           text_amount (last (captured s')) = i_text_amount (make_info H fps frame_idx frame) \<and>
           disk s' = (disk s)(file_name (last (captured s)) \<mapsto> frame)"
proof -
  let ?ni = "make_info H fps frame_idx frame"
  let ?fn = "file_name (last (captured s))"
  have inv: "selector_inv output_dir s" using run by (rule run_selector_inv)
  with ls have ne: "captured s \<noteq> []" and f: "i_file ls = Some ?fn"
    by (simp_all add: selector_inv_def)
  from inv have names: "map file_name (captured s) =
      map (slide_file output_dir) [1..<length (captured s) + 1]"
    by (simp add: selector_inv_def)
  have "last (map file_name (captured s)) = slide_file output_dir (length (captured s))"
    using ne by (subst names) (cases "captured s", simp_all add: last_map)
  then have fn: "?fn = slide_file output_dir (length (captured s))"
    using ne by (simp add: last_map)
  then have fne: "?fn \<noteq> []" by (simp add: slide_file_nonempty)
  let ?s' = "\<lparr>captured = update_last ?ni (captured s),
              last_saved = Some (?ni\<lparr>i_file := Some ?fn\<rparr>),
              disk = (disk s)(?fn \<mapsto> frame)\<rparr>"
  have hist: "i_hist ?ni = histogram H frame" and fr: "i_frame ?ni = frame"
    by (simp_all add: make_info_def)
  have tr: "try_replace W frame_idx ?ni ls s = ?s'"
    using f fne ne wr by (simp add: try_replace_def imwrite_def fr)
  have "process_sample cfg H W v fps output_dir frame_idx s = Inr ?s'"
    using ls rd sharp sim better
    by (simp add: process_sample_def Let_def hist tr)
  moreover have "file_name (last (captured ?s')) = slide_file output_dir (length (captured ?s'))"
    using ne fn by (simp add: update_last_props)
  ultimately show ?thesis
    using ne by (simp add: update_last_props)
qed

theorem replacement_in_place_witness:
  "run_samples (process_sample default_config demo_helpers all_written still_video 25 ''x_slides'')
     [0] \<lparr>captured = [], last_saved = None, disk = Map.empty\<rparr> = Inr first_slide_state \<and>
   is_new_better demo_helpers (make_info demo_helpers 25 125 (120, 1))
     (the (last_saved first_slide_state)) \<and>
   (\<exists>s'. process_sample default_config demo_helpers all_written still_video 25 ''x_slides'' 125
            first_slide_state = Inr s' \<and>
         length (captured s') = 1 \<and>
         file_name (last (captured s')) = ''x_slides/slide_001.png'' \<and>
         time (last (captured s')) = 5 \<and> sharpness (last (captured s')) = 120)"
proof -
  let ?ls = "the (last_saved first_slide_state)"
  have run: "run_samples
      (process_sample default_config demo_helpers all_written still_video 25 ''x_slides'') [0]
      \<lparr>captured = [], last_saved = None, disk = Map.empty\<rparr> = Inr first_slide_state"
    by (rule first_slide_run)
  have ls: "last_saved first_slide_state = Some ?ls"
    by (simp add: first_slide_state_def)
  have rd: "read_frame still_video 125 = Some (120, 1)"
    by (simp add: still_video_def)
  have sharp: "\<not> frame_sharpness demo_helpers (120, 1) < min_sharpness default_config"
    by (simp add: demo_helpers_def default_config_def)
  have sim: "similarity_threshold default_config \<le>
      hist_correlation demo_helpers (histogram demo_helpers (120, 1)) (i_hist ?ls)"
    by (simp add: demo_helpers_def default_config_def first_slide_state_def)
  have better: "is_new_better demo_helpers (make_info demo_helpers 25 125 (120, 1)) ?ls"
    by (simp add: demo_helpers_def default_config_def first_slide_state_def make_info_def
        is_improvement_def)
  have wr: "all_written (file_name (last (captured first_slide_state))) 125 = Written"
    by (simp add: all_written_def)
  from replacement_in_place [OF run ls rd sharp sim better wr]
  obtain s' where "process_sample default_config demo_helpers all_written still_video 25
        ''x_slides'' 125 first_slide_state = Inr s'"
    and "length (captured s') = length (captured first_slide_state)"
    and "file_name (last (captured s')) = file_name (last (captured first_slide_state))"
    and "time (last (captured s')) = i_time (make_info demo_helpers 25 125 (120, 1))"
    and "sharpness (last (captured s')) = i_sharpness (make_info demo_helpers 25 125 (120, 1))"
    by blast
  then have "\<exists>s'. process_sample default_config demo_helpers all_written still_video 25
        ''x_slides'' 125 first_slide_state = Inr s' \<and>
         length (captured s') = 1 \<and>
         file_name (last (captured s')) = ''x_slides/slide_001.png'' \<and>
         time (last (captured s')) = 5 \<and> sharpness (last (captured s')) = 120"
    by (simp add: first_slide_state_def make_info_def demo_helpers_def)
  with run better show ?thesis by blast
qed

theorem rejection_leaves_state_witness:
  "last_saved first_slide_state \<noteq> None \<and>
   read_frame still_video 250 = Some (105, 1) \<and>
   process_sample default_config demo_helpers all_written still_video 25 ''x_slides'' 250
     first_slide_state = Inr first_slide_state"
proof -
  let ?ls = "the (last_saved first_slide_state)"
  have ls: "last_saved first_slide_state = Some ?ls"
    by (simp add: first_slide_state_def)
  have rd: "read_frame still_video 250 = Some (105, 1)"
    by (simp add: still_video_def)
  have sim: "similarity_threshold default_config \<le>
      hist_correlation demo_helpers (histogram demo_helpers (105, 1)) (i_hist ?ls)"
    by (simp add: demo_helpers_def default_config_def first_slide_state_def)
  have worse: "\<not> is_new_better demo_helpers (make_info demo_helpers 25 250 (105, 1)) ?ls"
    by (simp add: demo_helpers_def default_config_def first_slide_state_def make_info_def
        is_improvement_def text_features_def)
  have "last_saved first_slide_state \<noteq> None"
    by (simp add: first_slide_state_def)
  with rejection_leaves_state [OF ls rd sim worse, of all_written "''x_slides''"] rd
  show ?thesis by simp
qed

text \<open>A replacement write that raises is caught and leaves the state as it was.\<close>

lemma replacement_write_raises:
  assumes "last_saved s = Some ls" and "i_file ls = Some filename"
    and "W filename frame_idx = WriteRaises"
  shows "try_replace W frame_idx new_info ls s = s"
  using assms by (simp add: try_replace_def imwrite_def)

text \<open>
  Claim C8.  On \<open>still_video\<close>, when the replacement write at frame 125 fails by returning
  false, the record of the incumbent takes the candidate's time and sharpness although the
  stored image is still the old frame.
\<close>

theorem silent_write_failure_applies_replacement:
  "process_sample default_config demo_helpers silent_failure_at_125 still_video 25 ''x_slides'' 125
     first_slide_state =
   Inr \<lparr>captured =
          [\<lparr>file_name = ''x_slides/slide_001.png'', time = 5, sharpness = 120,
            edge_density = 0, text_amount = 0\<rparr>],
        last_saved =
          Some \<lparr>i_frame = (120, 1), i_time = 5, i_sharpness = 120, i_edge_density = 0,
                i_text_amount = 0, i_text_content = [], i_hist = 1,
                i_file = Some ''x_slides/slide_001.png''\<rparr>,
        disk = [''x_slides/slide_001.png'' \<mapsto> (100, 1)]\<rparr>"
  by (simp add: process_sample_def first_slide_state_def Let_def demo_defs)

subsection \<open>Quality comparator and pipeline\<close>

text \<open>
  Claim C1.  The quality comparator reports an improvement exactly when the candidate's
  sharpness exceeds the incumbent's sharpness times \<open>replace_sharpness_factor\<close> or the
  candidate's text amount exceeds the incumbent's plus \<open>replace_text_extra\<close>; the defaults
  of the two thresholds are 1.10 and 10.  The comparator is a function of its three
  arguments only.
\<close>

theorem is_improvement_policy:
  "(is_improvement candidate incumbent cfg \<longleftrightarrow>
      i_sharpness candidate > i_sharpness incumbent * replace_sharpness_factor cfg \<or>
      i_text_amount candidate > i_text_amount incumbent + replace_text_extra cfg) \<and>
   replace_sharpness_factor default_config = 1.10 \<and>
   replace_text_extra default_config = 10"
  by (simp add: is_improvement_def default_config_def)

text \<open>A sample 20 percent sharper improves on the incumbent, one 5 percent sharper does not.\<close>

theorem is_improvement_policy_witness:
  "is_improvement (make_info demo_helpers 25 125 (120, 1)) (make_info demo_helpers 25 0 (100, 1))
     default_config \<and>
   \<not> is_improvement (make_info demo_helpers 25 250 (105, 1)) (make_info demo_helpers 25 0 (100, 1))
     default_config"
  using is_improvement_policy [of "make_info demo_helpers 25 125 (120, 1)"
      "make_info demo_helpers 25 0 (100, 1)" default_config]
    is_improvement_policy [of "make_info demo_helpers 25 250 (105, 1)"
      "make_info demo_helpers 25 0 (100, 1)" default_config]
  by (simp add: make_info_def demo_helpers_def text_features_def)

text \<open>
  Claim C9.  When the extraction completes with an empty list, \<^verbatim>\<open>process_video_to_pdf\<close>
  returns \<open>None\<close> with no call of the PDF converter and no removal of the downloaded
  video; that is the very result it gives when the extraction fails with \<open>None\<close>.
\<close>

theorem empty_extraction_returns_none:
  assumes "video_file = Some path" and "path \<noteq> []"
    and "extract path = Inr (Some [], d)"
    and "extract_failed path = Inr (None, d')"
  shows "process_video_to_pdf video_file extract convert_ok video_exists content_name =
           Inr (None, []) \<and>
         process_video_to_pdf video_file extract convert_ok video_exists content_name =
           process_video_to_pdf video_file extract_failed convert_ok video_exists content_name"
  using assms by (simp add: process_video_to_pdf_def)

lemma blurry_positions: "sample_positions default_config 375 25 = Inr [0, 125, 250]"
  by (simp add: sample_positions_def py_range_def interval_frames_def default_config_def
      py_round_def range_up.simps)

lemma blurry_props: "fps_of blurry_video = 25" "total_frames_of blurry_video = 375"
  "is_opened blurry_video" "read_frame blurry_video i = Some (10, 1)"
  by (simp_all add: blurry_video_def fps_of_def total_frames_of_def py_int_def)

lemma blurry_sample:
  "process_sample default_config demo_helpers W blurry_video fps output_dir frame_idx s = Inr s"
  by (simp add: process_sample_def blurry_props demo_helpers_def default_config_def)

lemma blurry_fallback_sample:
  "fallback_sample default_config demo_helpers W blurry_video fps output_dir total_frames i st =
     Inr st"
  by (simp add: fallback_sample_def blurry_props demo_helpers_def default_config_def)

lemma blurry_content_pass:
  "content_pass default_config demo_helpers all_written blurry_video ''talk'' Map.empty =
     Inr \<lparr>captured = [], last_saved = None, disk = Map.empty\<rparr>"
  by (simp add: content_pass_def blurry_props blurry_positions blurry_sample)

lemma blurry_fallback:
  "fallback_capture default_config demo_helpers all_written blurry_video output_dir 375 25 d =
     Inr ([], d)"
  by (simp add: fallback_capture_def num_to_capture_def range_up_unit upto_rec1
      blurry_fallback_sample)

lemma blurry_extract:
  "extract_best_frames default_config demo_helpers all_written blurry_video ''talk'' Map.empty =
     Inr (Some [], Map.empty)"
  by (simp add: extract_best_frames_def blurry_props blurry_content_pass blurry_fallback)

text \<open>The all-blurry video yields the empty list, the unopened one yields \<open>None\<close>.\<close>

theorem empty_extraction_returns_none_witness:
  "extract_best_frames default_config demo_helpers all_written blurry_video ''talk'' Map.empty =
     Inr (Some [], Map.empty) \<and>
   extract_best_frames default_config demo_helpers all_written unopened_video ''talk'' Map.empty =
     Inr (None, Map.empty) \<and>
   process_video_to_pdf (Some ''talk.mp4'')
     (\<lambda>path. extract_best_frames default_config demo_helpers all_written blurry_video ''talk''
        Map.empty) True True ''talk'' = Inr (None, []) \<and>
   process_video_to_pdf (Some ''talk.mp4'')
     (\<lambda>path. extract_best_frames default_config demo_helpers all_written unopened_video ''talk''
        Map.empty) True True ''talk'' = Inr (None, [])"
proof -
  have u: "extract_best_frames default_config demo_helpers all_written unopened_video ''talk''
      Map.empty = Inr (None, Map.empty)"
    by (simp add: extract_best_frames_def unopened_video_def blurry_video_def)
  have p: "''talk.mp4'' \<noteq> []" by simp
  from empty_extraction_returns_none [OF refl p blurry_extract u, of True True "''talk''"]
    blurry_extract u
  show ?thesis by (simp add: process_video_to_pdf_def)
qed

subsection \<open>Number of records\<close>

lemma run_samples_measure:
  fixes f :: "'s \<Rightarrow> nat"
  assumes step: "\<And>idx s s'. body idx s = Inr s' \<Longrightarrow> f s' \<le> f s + 1"
  shows "run_samples body ps s = Inr s' \<Longrightarrow> f s' \<le> f s + length ps"
proof (induction ps arbitrary: s)
  case Nil
  then show ?case by simp
next
  case (Cons idx ps)
  from Cons.prems obtain s1 where b: "body idx s = Inr s1"
    and r: "run_samples body ps s1 = Inr s'"
    by (auto split: sum.splits)
  from step [OF b] Cons.IH [OF r] show ?case by simp
qed

lemma save_new_length:
  "save_new W output_dir frame_idx new_info s = Inr s' \<Longrightarrow>
     length (captured s') = length (captured s) + 1"
  by (auto simp: save_new_def Let_def split: sum.splits)

lemma try_replace_length:
  "length (captured (try_replace W frame_idx new_info ls s)) = length (captured s)"
  by (auto simp: try_replace_def update_last_def split: option.splits sum.splits)

lemma process_sample_length:
  "process_sample cfg H W v fps output_dir frame_idx s = Inr s' \<Longrightarrow>
     length (captured s') \<le> length (captured s) + 1"
  by (auto simp: process_sample_def Let_def try_replace_length
      split: option.splits if_splits dest: save_new_length)

lemma ceiling_div_int:
  fixes a s :: int
  assumes "0 < s"
  shows "\<lceil>real_of_int a / real_of_int s\<rceil> = (a + s - 1) div s"
proof (rule ceiling_unique)
  let ?z = "(a + s - 1) div s"
  have split: "s * ?z + (a + s - 1) mod s = a + s - 1" by (rule mult_div_mod_eq)
  have m0: "0 \<le> (a + s - 1) mod s" and m1: "(a + s - 1) mod s < s"
    using assms by simp_all
  from split m0 have "s * ?z \<le> a + s - 1" by linarith
  then have "(?z - 1) * s < a" by (simp add: algebra_simps)
  then have "real_of_int ((?z - 1) * s) < real_of_int a" by (simp only: of_int_less_iff)
  then show "real_of_int ?z - 1 < real_of_int a / real_of_int s"
    using assms by (simp add: pos_less_divide_eq)
  from split m1 have "a \<le> s * ?z" by linarith
  then have "a \<le> ?z * s" by (simp add: mult.commute)
  then have "real_of_int a \<le> real_of_int (?z * s)" by (simp only: of_int_le_iff)
  then show "real_of_int a / real_of_int s \<le> real_of_int ?z"
    using assms by (simp add: pos_divide_le_eq)
qed

lemma content_pass_length:
  assumes "content_pass cfg H W v output_name d0 = Inr s"
  shows "int (length (captured s)) \<le>
           max 0 \<lceil>real_of_int (total_frames_of v) / real_of_int (interval_frames cfg (fps_of v))\<rceil>"
proof -
  let ?step = "interval_frames cfg (fps_of v)"
  let ?ps = "range_up 0 (total_frames_of v) ?step"
  have pos: "0 < ?step" using interval_frames_pos [of cfg "fps_of v"] by simp
  then have sp: "sample_positions cfg (total_frames_of v) (fps_of v) = Inr ?ps"
    by (simp add: sample_positions_def py_range_def)
  with assms have run: "run_samples
      (process_sample cfg H W v (fps_of v) (output_dir_of output_name)) ?ps
      \<lparr>captured = [], last_saved = None, disk = d0\<rparr> = Inr s"
    by (simp add: content_pass_def)
  let ?body = "process_sample cfg H W v (fps_of v) (output_dir_of output_name)"
  have step: "\<And>idx s s'. ?body idx s = Inr s' \<Longrightarrow>
      length (captured s') \<le> length (captured s) + 1"
    by (rule process_sample_length)
  from run_samples_measure [of ?body "\<lambda>s. length (captured s)", OF step run]
  have "length (captured s) \<le> length ?ps" by simp
  also have "length ?ps = nat ((total_frames_of v + ?step - 1) div ?step)"
    using range_up_length [OF pos, of 0 "total_frames_of v"] by simp
  finally show ?thesis
    by (simp add: ceiling_div_int [OF pos])
qed

lemma merge_fallback_length: "length (merge_fallback cs fs) \<le> length cs + length fs"
proof (induction fs arbitrary: cs)
  case Nil
  then show ?case by simp
next
  case (Cons f fs)
  show ?case using Cons.IH [of "cs @ [f]"] Cons.IH [of cs] by simp
qed

text \<open>
  Claim C2, amended.  The returned list has at most
  \<open>\<lceil>total_frames / interval_frames\<rceil>\<close> records (none for a negative frame count), with
  \<open>interval_frames = max(1, round(capture_interval_seconds * fps))\<close>, plus the records that
  the fallback sampler returns.
\<close>

theorem keyframe_count_bound:
  assumes "extract_best_frames cfg H W v output_name d0 = Inr (Some ks, d)"
  shows "int (length ks) \<le>
           max 0 \<lceil>real_of_int (total_frames_of v) / real_of_int (interval_frames cfg (fps_of v))\<rceil>
           + int (fallback_count cfg H W v output_name d0)"
proof -
  from assms obtain s where cp: "content_pass cfg H W v output_name d0 = Inr s"
    by (auto simp: extract_best_frames_def split: if_splits sum.splits)
  note len = content_pass_length [OF cp]
  show ?thesis
  proof (cases "length (captured s) < 3")
    case True
    with assms cp obtain fb where
      fc: "fallback_capture cfg H W v (output_dir_of output_name) (total_frames_of v) (fps_of v)
             (disk s) = Inr (fb, d)"
      and ks: "ks = merge_fallback (captured s) fb"
      by (auto simp: extract_best_frames_def split: if_splits sum.splits)
    from True cp fc have "fallback_count cfg H W v output_name d0 = length fb"
      by (simp add: fallback_count_def)
    with len merge_fallback_length [of "captured s" fb] ks show ?thesis by simp
  next
    case False
    with assms cp have "ks = captured s"
      by (auto simp: extract_best_frames_def split: if_splits sum.splits)
    with len show ?thesis by simp
  qed
qed

subsection \<open>File names are distinct\<close>

lemma digits_value_snoc: "digits_value (s @ [c]) = 10 * digits_value s + (of_char c - 48)"
  by (simp add: digits_value_def)

lemma of_char_digit: "d < 10 \<Longrightarrow> of_char (digit_char d) = 48 + d"
  by (simp add: digit_char_def)

lemma digits_value_str_nat: "digits_value (str_nat n) = n"
proof (induction n rule: str_nat.induct)
  case (1 n)
  show ?case
  proof (cases "n < 10")
    case True
    then show ?thesis
      by (subst str_nat.simps) (simp add: digits_value_def of_char_digit)
  next
    case False
    with 1 show ?thesis
      by (subst str_nat.simps) (simp add: digits_value_snoc of_char_digit)
  qed
qed

lemma digits_value_zeros: "digits_value (replicate k CHR ''0'' @ s) = digits_value s"
proof -
  have "foldl (\<lambda>a c. 10 * a + (of_char c - 48)) 0 (replicate k CHR ''0'') = (0::nat)"
    by (induction k) simp_all
  then show ?thesis by (simp add: digits_value_def)
qed

lemma digits_value_fmt03: "digits_value (fmt03 n) = n"
  by (simp add: fmt03_def digits_value_zeros digits_value_str_nat)

lemma fmt03_inject: "fmt03 m = fmt03 n \<longleftrightarrow> m = n"
  by (metis digits_value_fmt03)

lemma slide_file_inject: "slide_file output_dir m = slide_file output_dir n \<longleftrightarrow> m = n"
  by (simp add: slide_file_def fmt03_inject)

lemma fallback_file_inject:
  "fallback_file output_dir m = fallback_file output_dir n \<longleftrightarrow> m = n"
  by (simp add: fallback_file_def fmt03_inject)

lemma str_nat_digits: "c \<in> set (str_nat n) \<Longrightarrow> c \<in> digit_char ` {0..<10}"
proof (induction n rule: str_nat.induct)
  case (1 n)
  show ?case
  proof (cases "n < 10")
    case True
    with "1.prems" show ?thesis by (subst (asm) str_nat.simps) auto
  next
    case False
    with "1.prems" have "c \<in> set (str_nat (n div 10)) \<or> c = digit_char (n mod 10)"
      by (subst (asm) str_nat.simps) auto
    with False "1.IH" show ?thesis by auto
  qed
qed

lemma str_nat_nonempty: "str_nat n \<noteq> []"
  by (subst str_nat.simps) simp

lemma fmt03_digits: "c \<in> set (fmt03 n) \<Longrightarrow> c \<in> digit_char ` {0..<10}"
proof -
  have "char_of (of_char CHR ''0'' :: nat) = CHR ''0''" by (rule char_of_char)
  then have z: "CHR ''0'' = digit_char 0" by (simp add: digit_char_def)
  show "c \<in> set (fmt03 n) \<Longrightarrow> c \<in> digit_char ` {0..<10}"
    using str_nat_digits [of c n] by (auto simp: fmt03_def z)
qed

lemma fmt03_nonempty: "fmt03 n \<noteq> []"
  by (simp add: fmt03_def str_nat_nonempty)

lemma digit_char_not_f: "d < 10 \<Longrightarrow> digit_char d \<noteq> CHR ''f''"
proof
  assume "d < 10" and "digit_char d = CHR ''f''"
  then have "of_char (digit_char d) = (of_char CHR ''f'' :: nat)" by simp
  with \<open>d < 10\<close> show False by (simp add: of_char_digit)
qed

lemma slide_not_fallback: "slide_file output_dir m \<noteq> fallback_file output_dir n"
proof
  assume "slide_file output_dir m = fallback_file output_dir n"
  then have eq: "fmt03 m @ ''.png'' = ''fb_'' @ fmt03 n @ ''.png''"
    by (simp add: slide_file_def fallback_file_def)
  obtain c cs where m: "fmt03 m = c # cs"
    using fmt03_nonempty [of m] by (cases "fmt03 m") auto
  with eq have "c = CHR ''f''" by simp
  moreover obtain k where "k < 10" and "c = digit_char k"
    using fmt03_digits [of c m] m by auto
  ultimately show False using digit_char_not_f [of k] by simp
qed

lemma distinct_slide_files: "distinct (map (slide_file output_dir) [1..<n + 1])"
  by (simp add: distinct_map inj_on_def slide_file_inject)

lemma merge_fallback_distinct:
  "distinct (map file_name cs) \<Longrightarrow> distinct (map file_name (merge_fallback cs fs))"
proof (induction fs arbitrary: cs)
  case Nil
  then show ?case by simp
next
  case (Cons f fs)
  show ?case
  proof (cases "file_name f \<in> set (map file_name cs)")
    case True
    with Cons show ?thesis by simp
  next
    case False
    with Cons.prems have "distinct (map file_name (cs @ [f]))" by simp
    from Cons.IH [OF this] False show ?thesis by simp
  qed
qed

text \<open>
  Claim C5.  The file names of the records that \<^verbatim>\<open>extract_best_frames\<close> returns are
  pairwise distinct, with or without the fallback merge.
\<close>

theorem storage_references_distinct:
  assumes "extract_best_frames cfg H W v output_name d0 = Inr (Some ks, d)"
  shows "distinct (map file_name ks)"
proof -
  from assms obtain s where cp: "content_pass cfg H W v output_name d0 = Inr s"
    by (auto simp: extract_best_frames_def split: if_splits sum.splits)
  then obtain ps where "run_samples
      (process_sample cfg H W v (fps_of v) (output_dir_of output_name)) ps
      \<lparr>captured = [], last_saved = None, disk = d0\<rparr> = Inr s"
    by (auto simp: content_pass_def split: sum.splits)
  then have "selector_inv (output_dir_of output_name) s" by (rule run_selector_inv)
  then have "map file_name (captured s) =
      map (slide_file (output_dir_of output_name)) [1..<length (captured s) + 1]"
    by (simp add: selector_inv_def)
  then have dist: "distinct (map file_name (captured s))"
    using distinct_slide_files [of "output_dir_of output_name" "length (captured s)"] by simp
  from assms cp have "ks = captured s \<or> (\<exists>fb. ks = merge_fallback (captured s) fb)"
    by (auto simp: extract_best_frames_def split: if_splits sum.splits)
  with dist merge_fallback_distinct show ?thesis by auto
qed

subsection \<open>Runs on the example videos\<close>

lemma slideshow_props:
  assumes "rate \<noteq> 0"
  shows "fps_of (slideshow_video rate n) = rate"
    and "total_frames_of (slideshow_video rate n) = n"
    and "is_opened (slideshow_video rate n)"
    and "read_frame (slideshow_video rate n) i = Some (100, nat i)"
  using assms by (simp_all add: slideshow_video_def fps_of_def total_frames_of_def py_int_def)

lemma slideshow_sample:
  assumes "0 \<le> p"
    and "\<And>ls. last_saved s = Some ls \<Longrightarrow> int (i_hist ls) < p"
  shows "\<exists>s'. process_sample default_config demo_helpers all_written (slideshow_video rate n)
                 fps output_dir p s = Inr s' \<and>
              length (captured s') = length (captured s) + 1 \<and>
              (\<exists>ls. last_saved s' = Some ls \<and> int (i_hist ls) = p)"
proof -
  let ?v = "slideshow_video rate n"
  let ?ni = "make_info demo_helpers fps p (100, nat p)"
  have rd: "read_frame ?v p = Some (100, nat p)" by (simp add: slideshow_video_def)
  have hist: "i_hist ?ni = nat p" by (simp add: make_info_def demo_helpers_def)
  have save: "\<exists>s'. save_new all_written output_dir p ?ni s = Inr s' \<and>
      length (captured s') = length (captured s) + 1 \<and>
      (\<exists>ls. last_saved s' = Some ls \<and> int (i_hist ls) = p)"
    using assms(1) by (simp add: save_new_def imwrite_def all_written_def Let_def hist)
  show ?thesis
  proof (cases "last_saved s")
    case None
    with save show ?thesis
      by (simp add: process_sample_def rd demo_helpers_def default_config_def Let_def)
  next
    case (Some ls)
    with assms have "i_hist ls \<noteq> nat p" by fastforce
    then have "hist_correlation demo_helpers (i_hist ?ni) (i_hist ls) = 0"
      by (simp add: demo_helpers_def make_info_def)
    with Some save show ?thesis
      by (simp add: process_sample_def rd default_config_def Let_def)
        (simp add: demo_helpers_def)
  qed
qed

lemma slideshow_run:
  assumes "sorted_wrt (<) ps" and "\<forall>p \<in> set ps. 0 \<le> p"
    and "\<And>ls p. last_saved s = Some ls \<Longrightarrow> p \<in> set ps \<Longrightarrow> int (i_hist ls) < p"
  shows "\<exists>s'. run_samples (process_sample default_config demo_helpers all_written
                 (slideshow_video rate n) fps output_dir) ps s = Inr s' \<and>
              length (captured s') = length (captured s) + length ps"
  using assms
proof (induction ps arbitrary: s)
  case Nil
  then show ?case by simp
next
  case (Cons p ps)
  have "0 \<le> p" using Cons.prems(2) by simp
  moreover have "\<And>ls. last_saved s = Some ls \<Longrightarrow> int (i_hist ls) < p"
    using Cons.prems(3) by simp
  ultimately obtain s1 ls1 where
    step: "process_sample default_config demo_helpers all_written (slideshow_video rate n)
             fps output_dir p s = Inr s1"
    and len: "length (captured s1) = length (captured s) + 1"
    and ls1: "last_saved s1 = Some ls1" "int (i_hist ls1) = p"
    using slideshow_sample [of p s rate n fps output_dir] by blast
  have "sorted_wrt (<) ps" and "\<forall>q \<in> set ps. 0 \<le> q" and gt: "\<forall>q \<in> set ps. p < q"
    using Cons.prems(1,2) by simp_all
  moreover have "\<And>ls q. last_saved s1 = Some ls \<Longrightarrow> q \<in> set ps \<Longrightarrow> int (i_hist ls) < q"
    using ls1 gt by simp
  ultimately obtain s' where
    "run_samples (process_sample default_config demo_helpers all_written
       (slideshow_video rate n) fps output_dir) ps s1 = Inr s'"
    and "length (captured s') = length (captured s1) + length ps"
    using Cons.IH [of s1] by blast
  with step len show ?case by simp
qed

lemma slideshow_content_pass:
  assumes "rate \<noteq> 0"
  shows "\<exists>s. content_pass default_config demo_helpers all_written (slideshow_video rate n)
               output_name d0 = Inr s \<and>
             length (captured s) =
               nat ((n + interval_frames default_config rate - 1)
                      div interval_frames default_config rate)"
proof -
  let ?step = "interval_frames default_config rate"
  let ?ps = "range_up 0 n ?step"
  have pos: "0 < ?step" using interval_frames_pos [of default_config rate] by simp
  then have sp: "sample_positions default_config n rate = Inr ?ps"
    by (simp add: sample_positions_def py_range_def)
  have "\<forall>p \<in> set ?ps. 0 \<le> p" using range_up_lower by blast
  then obtain s where
    "run_samples (process_sample default_config demo_helpers all_written
       (slideshow_video rate n) rate (output_dir_of output_name)) ?ps
       \<lparr>captured = [], last_saved = None, disk = d0\<rparr> = Inr s"
    and "length (captured s) = length ?ps"
    using slideshow_run [OF range_up_strict, of 0 n ?step
        "\<lparr>captured = [], last_saved = None, disk = d0\<rparr>" rate n rate
        "output_dir_of output_name"]
    by auto
  then show ?thesis
    using range_up_length [OF pos, of 0 n]
    by (simp add: content_pass_def slideshow_props [OF assms] sp)
qed

lemma odd_rate_interval: "interval_frames default_config (602 / 25) = 120"
  by (simp add: interval_frames_def default_config_def py_round_def Let_def)

lemma odd_rate_extract:
  "\<exists>s. content_pass default_config demo_helpers all_written odd_rate_video ''talk'' Map.empty
          = Inr s \<and>
        length (captured s) = 4 \<and>
        extract_best_frames default_config demo_helpers all_written odd_rate_video ''talk''
          Map.empty = Inr (Some (captured s), disk s)"
proof -
  have r: "(602 / 25 :: real) \<noteq> 0" by simp
  from slideshow_content_pass [OF r, of 361 "''talk''" Map.empty]
  obtain s where cp: "content_pass default_config demo_helpers all_written
      (slideshow_video (602 / 25) 361) ''talk'' Map.empty = Inr s"
    and len: "length (captured s) = 4"
    by (auto simp: odd_rate_interval)
  have v: "odd_rate_video = slideshow_video (602 / 25) 361"
    by (simp add: odd_rate_video_def)
  from cp len show ?thesis
    by (simp add: v extract_best_frames_def slideshow_props [OF r])
qed

text \<open>
  Claim C2 as stated fails: with the default interval of 5 s, 361 frames at 24.08 fps are
  sampled every \<open>round(120.4) = 120\<close> frames, at 0, 120, 240 and 360.  Four distinct
  sharp samples give four records and no fallback, but
  \<open>\<lceil>video_duration / capture_interval\<rceil> = \<lceil>14.99 / 5\<rceil> = 3\<close>.
\<close>

theorem duration_bound_counterexample:
  "\<not> int (length (frames_of (extract_best_frames default_config demo_helpers all_written
                              odd_rate_video ''talk'' Map.empty)))
       \<le> \<lceil>duration_of (total_frames_of odd_rate_video) (fps_of odd_rate_video)
             / capture_interval_seconds default_config\<rceil>
          + int (fallback_count default_config demo_helpers all_written odd_rate_video
                   ''talk'' Map.empty)"
proof -
  from odd_rate_extract obtain s where
    cp: "content_pass default_config demo_helpers all_written odd_rate_video ''talk'' Map.empty
           = Inr s"
    and len: "length (captured s) = 4"
    and ex: "extract_best_frames default_config demo_helpers all_written odd_rate_video
               ''talk'' Map.empty = Inr (Some (captured s), disk s)"
    by blast
  have fc: "fallback_count default_config demo_helpers all_written odd_rate_video ''talk''
      Map.empty = 0"
    using cp len by (simp add: fallback_count_def)
  have d: "\<lceil>duration_of (total_frames_of odd_rate_video) (fps_of odd_rate_video)
             / capture_interval_seconds default_config\<rceil> = 3"
    by (simp add: odd_rate_video_def slideshow_video_def fps_of_def total_frames_of_def
        py_int_def duration_of_def default_config_def)
  show ?thesis
    by (simp add: ex frames_of_def len fc d)
qed

text \<open>
  On the same video the count of four is within the bound by sampling positions,
  \<open>\<lceil>361 / 120\<rceil> = 4\<close>.
\<close>

theorem keyframe_count_bound_witness:
  "\<exists>ks d. extract_best_frames default_config demo_helpers all_written odd_rate_video ''talk''
            Map.empty = Inr (Some ks, d) \<and>
          length ks = 4 \<and>
          int (length ks) \<le>
            max 0 \<lceil>real_of_int (total_frames_of odd_rate_video)
                    / real_of_int (interval_frames default_config (fps_of odd_rate_video))\<rceil>
            + int (fallback_count default_config demo_helpers all_written odd_rate_video
                     ''talk'' Map.empty)"
proof -
  from odd_rate_extract obtain s where
    cp: "content_pass default_config demo_helpers all_written odd_rate_video ''talk'' Map.empty
           = Inr s"
    and len: "length (captured s) = 4"
    and ex: "extract_best_frames default_config demo_helpers all_written odd_rate_video
               ''talk'' Map.empty = Inr (Some (captured s), disk s)"
    by blast
  from keyframe_count_bound [OF ex] len ex show ?thesis by blast
qed

lemma still_props: "fps_of still_video = 25" "total_frames_of still_video = 375"
  "is_opened still_video"
  by (simp_all add: still_video_def fps_of_def total_frames_of_def py_int_def)

lemma still_run:
  "\<exists>s. run_samples (process_sample default_config demo_helpers all_written still_video 25
            output_dir) [0, 125, 250] \<lparr>captured = [], last_saved = None, disk = Map.empty\<rparr>
          = Inr s \<and>
        map file_name (captured s) = [slide_file output_dir 1]"
  by (simp add: process_sample_def Let_def
      demo_helpers_def still_video_def default_config_def make_info_def text_features_def
      save_new_def imwrite_def all_written_def is_improvement_def try_replace_def
      update_last_def slide_file_nonempty)

lemma still_content_pass:
  "\<exists>s. content_pass default_config demo_helpers all_written still_video ''talk'' Map.empty
          = Inr s \<and>
        map file_name (captured s) = [slide_file (output_dir_of ''talk'') 1]"
  using still_run [of "output_dir_of ''talk''"]
  by (simp add: content_pass_def still_props blurry_positions)

lemma still_fallback_idx:
  "fallback_frame_idx 375 0 = 0" "fallback_frame_idx 375 1 = 125"
  "fallback_frame_idx 375 2 = 250"
  by code_simp+

lemma still_fallback:
  "\<exists>fs d'. fallback_capture default_config demo_helpers all_written still_video
              output_dir 375 25 d = Inr (fs, d') \<and>
           map file_name fs = map (fallback_file output_dir) [1, 2, 3]"
  by (simp add: fallback_capture_def num_to_capture_def range_up_unit upto_rec1
      fallback_sample_def still_fallback_idx Let_def
      demo_helpers_def still_video_def default_config_def text_features_def
      imwrite_def all_written_def numeral_2_eq_2 numeral_3_eq_3)

lemma still_extract:
  "\<exists>ks d. extract_best_frames default_config demo_helpers all_written still_video ''talk''
            Map.empty = Inr (Some ks, d) \<and>
          map file_name ks =
            [slide_file (output_dir_of ''talk'') 1, fallback_file (output_dir_of ''talk'') 1,
             fallback_file (output_dir_of ''talk'') 2, fallback_file (output_dir_of ''talk'') 3]"
proof -
  let ?dir = "output_dir_of ''talk''"
  from still_content_pass obtain s where
    cp: "content_pass default_config demo_helpers all_written still_video ''talk'' Map.empty
           = Inr s"
    and names: "map file_name (captured s) = [slide_file ?dir 1]"
    by iprover
  from still_fallback [of ?dir "disk s"] obtain fs d' where
    fb: "fallback_capture default_config demo_helpers all_written still_video ?dir 375 25
           (disk s) = Inr (fs, d')"
    and fnames: "map file_name fs = map (fallback_file ?dir) [1, 2, 3]"
    by iprover
  from names obtain c where c: "captured s = [c]" "file_name c = slide_file ?dir 1"
    by auto
  from fnames obtain f1 f2 f3 where f: "fs = [f1, f2, f3]"
    "file_name f1 = fallback_file ?dir 1" "file_name f2 = fallback_file ?dir 2"
    "file_name f3 = fallback_file ?dir 3"
    by auto
  have "merge_fallback (captured s) fs = [c, f1, f2, f3]"
    by (simp add: c f fallback_file_inject slide_not_fallback
        not_sym [OF slide_not_fallback])
  then show ?thesis
    by (simp add: extract_best_frames_def still_props cp fb c f)
qed

text \<open>
  The still video gives one content-aware record and three fallback records, under four
  different names.
\<close>

theorem storage_references_distinct_witness:
  "\<exists>ks d. extract_best_frames default_config demo_helpers all_written still_video ''talk''
            Map.empty = Inr (Some ks, d) \<and>
          map file_name ks =
            [slide_file (output_dir_of ''talk'') 1, fallback_file (output_dir_of ''talk'') 1,
             fallback_file (output_dir_of ''talk'') 2, fallback_file (output_dir_of ''talk'') 3] \<and>
          distinct (map file_name ks)"
proof -
  from still_extract obtain ks d where
    ex: "extract_best_frames default_config demo_helpers all_written still_video ''talk''
           Map.empty = Inr (Some ks, d)"
    and names: "map file_name ks =
            [slide_file (output_dir_of ''talk'') 1, fallback_file (output_dir_of ''talk'') 1,
             fallback_file (output_dir_of ''talk'') 2, fallback_file (output_dir_of ''talk'') 3]"
    by iprover
  from storage_references_distinct [OF ex] ex names show ?thesis by iprover
qed

subsection \<open>Order of the file names\<close>

lemma append_less_cancel: "xs @ ys < xs @ zs \<longleftrightarrow> ys < (zs :: string)"
  by (induction xs) simp_all

lemma less_append_same_length:
  "length xs = length ys \<Longrightarrow> xs < ys \<Longrightarrow> xs @ s < ys @ (t :: string)"
proof (induction xs ys rule: list_induct2)
  case Nil
  then show ?case by simp
next
  case (Cons x xs y ys)
  then show ?case by auto
qed

lemma digit_char_mono: "a < b \<Longrightarrow> b < 10 \<Longrightarrow> digit_char a < digit_char b"
  by (simp add: less_char_def of_char_digit)

lemma digit_char_zero: "CHR ''0'' = digit_char 0"
proof -
  have "char_of (of_char CHR ''0'' :: nat) = CHR ''0''" by (rule char_of_char)
  then show ?thesis by (simp add: digit_char_def)
qed

lemma str_nat_1: "n < 10 \<Longrightarrow> str_nat n = [digit_char n]"
  by (subst str_nat.simps) simp

lemma str_nat_2:
  "10 \<le> n \<Longrightarrow> n < 100 \<Longrightarrow> str_nat n = [digit_char (n div 10), digit_char (n mod 10)]"
  by (subst str_nat.simps) (simp add: str_nat_1)

lemma str_nat_3:
  "100 \<le> n \<Longrightarrow> n < 1000 \<Longrightarrow>
     str_nat n = [digit_char (n div 100), digit_char (n div 10 mod 10), digit_char (n mod 10)]"
  by (subst str_nat.simps) (simp add: str_nat_2 div_mult2_eq [symmetric])

lemma fmt03_digits3:
  assumes "n < 1000"
  shows "fmt03 n = [digit_char (n div 100), digit_char (n div 10 mod 10), digit_char (n mod 10)]"
proof -
  consider "n < 10" | "10 \<le> n" "n < 100" | "100 \<le> n" using assms by linarith
  then show ?thesis
  proof cases
    case 1
    then show ?thesis
      by (simp add: fmt03_def str_nat_1 digit_char_zero numeral_2_eq_2)
  next
    case 2
    then have "n div 100 = 0" by simp
    with 2 show ?thesis
      by (simp add: fmt03_def str_nat_2 digit_char_zero)
  next
    case 3
    with assms show ?thesis
      by (simp add: fmt03_def str_nat_3)
  qed
qed

lemma fmt03_mono:
  assumes "a < b" "b < 1000"
  shows "fmt03 a < fmt03 b"
proof -
  have a: "a < 1000" using assms by simp
  have dec: "n = 100 * (n div 100) + 10 * (n div 10 mod 10) + n mod 10" for n :: nat
  proof -
    have "n div 10 = 10 * (n div 10 div 10) + n div 10 mod 10" by simp
    moreover have "n div 10 div 10 = n div 100" by (simp add: div_mult2_eq [symmetric])
    moreover have "n = 10 * (n div 10) + n mod 10" by simp
    ultimately show ?thesis by linarith
  qed
  have bd: "n div 10 mod 10 < 10" "n mod 10 < 10" for n :: nat by simp_all
  consider "a div 100 < b div 100"
    | "a div 100 = b div 100" "a div 10 mod 10 < b div 10 mod 10"
    | "a div 100 = b div 100" "a div 10 mod 10 = b div 10 mod 10" "a mod 10 < b mod 10"
  proof (cases "a div 100" "b div 100" rule: linorder_cases)
    case less
    then show ?thesis using that(1) by simp
  next
    case greater
    with dec [of a] dec [of b] bd [of a] bd [of b] assms(1) show ?thesis by linarith
  next
    case equal
    show ?thesis
    proof (cases "a div 10 mod 10" "b div 10 mod 10" rule: linorder_cases)
      case less
      with equal show ?thesis using that(2) by simp
    next
      case greater
      with equal dec [of a] dec [of b] bd [of a] bd [of b] assms(1) show ?thesis by linarith
    next
      case eq2: equal
      with equal dec [of a] dec [of b] assms(1) have "a mod 10 < b mod 10" by linarith
      with equal eq2 show ?thesis using that(3) by simp
    qed
  qed
  then show ?thesis
  proof cases
    case 1
    moreover have "b div 100 < 10" using assms(2) by simp
    ultimately show ?thesis
      by (simp add: fmt03_digits3 a assms(2) digit_char_mono)
  next
    case 2
    then show ?thesis
      by (simp add: fmt03_digits3 a assms(2) digit_char_mono)
  next
    case 3
    then show ?thesis
      by (simp add: fmt03_digits3 a assms(2) digit_char_mono)
  qed
qed

lemma length_fmt03: "n < 1000 \<Longrightarrow> length (fmt03 n) = 3"
  by (simp add: fmt03_digits3)

lemma slide_file_mono:
  assumes "a < b" "b < 1000"
  shows "slide_file output_dir a < slide_file output_dir b"
proof -
  have "fmt03 a @ ''.png'' < fmt03 b @ ''.png''"
    using assms by (intro less_append_same_length fmt03_mono) (simp_all add: length_fmt03)
  then show ?thesis
    unfolding slide_file_def by (simp only: append_less_cancel)
qed

lemma fallback_file_mono:
  assumes "a < b" "b < 1000"
  shows "fallback_file output_dir a < fallback_file output_dir b"
proof -
  have "fmt03 a @ ''.png'' < fmt03 b @ ''.png''"
    using assms by (intro less_append_same_length fmt03_mono) (simp_all add: length_fmt03)
  then show ?thesis
    unfolding fallback_file_def by (simp only: append_less_cancel)
qed

lemma slide_less_fallback: "slide_file output_dir a < fallback_file output_dir b"
proof -
  obtain c cs where f: "fmt03 a = c # cs"
    using fmt03_nonempty [of a] by (cases "fmt03 a") auto
  then have "c \<in> digit_char ` {0..<10}" using fmt03_digits [of c a] by simp
  then obtain k where "k < 10" "c = digit_char k" by auto
  then have "c < CHR ''f''" by (simp add: less_char_def of_char_digit)
  then have "fmt03 a @ ''.png'' < ''fb_'' @ fmt03 b @ ''.png''"
    by (simp add: f)
  then have "''/slide_'' @ fmt03 a @ ''.png'' < ''/slide_'' @ ''fb_'' @ fmt03 b @ ''.png''"
    by (simp only: append_less_cancel)
  then have "output_dir @ ''/slide_'' @ fmt03 a @ ''.png''
      < output_dir @ ''/slide_'' @ ''fb_'' @ fmt03 b @ ''.png''"
    by (simp only: append_less_cancel)
  then show ?thesis
    by (simp add: slide_file_def fallback_file_def)
qed

lemma sorted_slide_files:
  assumes "n < 1000"
  shows "sorted (map (slide_file output_dir) [1..<n + 1])"
proof -
  have "sorted_wrt (<) (map (slide_file output_dir) [1..<n + 1])"
    using assms
    by (intro sorted_wrt_map_mono [OF sorted_wrt_upt]) (auto intro: slide_file_mono)
  then show ?thesis by (rule strict_sorted_imp_sorted)
qed

lemma sorted_fallback_files:
  assumes "n < 1000"
  shows "sorted (map (fallback_file output_dir) [1..<n + 1])"
proof -
  have "sorted_wrt (<) (map (fallback_file output_dir) [1..<n + 1])"
    using assms
    by (intro sorted_wrt_map_mono [OF sorted_wrt_upt]) (auto intro: fallback_file_mono)
  then show ?thesis by (rule strict_sorted_imp_sorted)
qed

subsection \<open>Names of the fallback records\<close>

lemma fallback_sample_names:
  assumes "fallback_sample cfg H W v fps output_dir T i st = Inr st'"
    and "map file_name (fst st) = map (fallback_file output_dir) [1..<length (fst st) + 1]"
  shows "map file_name (fst st') = map (fallback_file output_dir) [1..<length (fst st') + 1]"
  using assms
  by (auto simp: fallback_sample_def Let_def split: option.splits if_splits sum.splits)

lemma fallback_sample_length:
  "fallback_sample cfg H W v fps output_dir T i st = Inr st' \<Longrightarrow>
     length (fst st') \<le> length (fst st) + 1"
  by (auto simp: fallback_sample_def Let_def split: option.splits if_splits sum.splits)

lemma fallback_capture_names:
  assumes "fallback_capture cfg H W v output_dir T fps d = Inr (fb, d')"
  shows "map file_name fb = map (fallback_file output_dir) [1..<length fb + 1]"
    and "length fb \<le> 20"
proof -
  let ?body = "fallback_sample cfg H W v fps output_dir T"
  let ?ps = "range_up 0 (num_to_capture T) 1"
  from assms have run: "run_samples ?body ?ps ([], d) = Inr (fb, d')"
    by (simp add: fallback_capture_def)
  have "map file_name (fst (fb, d')) =
      map (fallback_file output_dir) [1..<length (fst (fb, d')) + 1]"
  proof (rule run_samples_invariant [of
          "\<lambda>st. map file_name (fst st) = map (fallback_file output_dir) [1..<length (fst st) + 1]"
          ?body "([], d)" ?ps "(fb, d')"])
    show "map file_name (fst ([] :: keyframe list, d)) =
        map (fallback_file output_dir) [1..<length (fst ([] :: keyframe list, d)) + 1]"
      by simp
    show "run_samples ?body ?ps ([], d) = Inr (fb, d')" by (rule run)
  next
    fix idx st st'
    assume "map file_name (fst st) = map (fallback_file output_dir) [1..<length (fst st) + 1]"
      and "?body idx st = Inr st'"
    then show "map file_name (fst st') =
        map (fallback_file output_dir) [1..<length (fst st') + 1]"
      by (rule fallback_sample_names [rotated])
  qed
  then show "map file_name fb = map (fallback_file output_dir) [1..<length fb + 1]" by simp
  have step: "\<And>idx s s'. ?body idx s = Inr s' \<Longrightarrow> length (fst s') \<le> length (fst s) + 1"
    by (rule fallback_sample_length)
  have "length (fst (fb, d')) \<le> length (fst ([] :: keyframe list, d)) + length ?ps"
    by (rule run_samples_measure [of ?body "\<lambda>st. length (fst st)", OF step run])
  moreover have "length ?ps \<le> 20"
  proof -
    have "num_to_capture T \<le> 20" by (simp add: num_to_capture_def)
    moreover have "length ?ps = nat (num_to_capture T)"
      using range_up_length [of 1 0 "num_to_capture T"] by simp
    ultimately show ?thesis by linarith
  qed
  ultimately show "length fb \<le> 20" by simp
qed

lemma merge_fallback_append:
  assumes "distinct (map file_name fs)"
    and "\<forall>f \<in> set fs. file_name f \<notin> set (map file_name cs)"
  shows "merge_fallback cs fs = cs @ fs"
  using assms
proof (induction fs arbitrary: cs)
  case Nil
  then show ?case by simp
next
  case (Cons f fs)
  have "merge_fallback (cs @ [f]) fs = (cs @ [f]) @ fs"
    using Cons.prems by (intro Cons.IH) (auto simp: image_iff)
  with Cons.prems show ?case by simp
qed

lemma content_pass_names:
  assumes "content_pass cfg H W v output_name d0 = Inr s"
  shows "map file_name (captured s) =
           map (slide_file (output_dir_of output_name)) [1..<length (captured s) + 1]"
proof -
  from assms obtain ps where "run_samples
      (process_sample cfg H W v (fps_of v) (output_dir_of output_name)) ps
      \<lparr>captured = [], last_saved = None, disk = d0\<rparr> = Inr s"
    by (auto simp: content_pass_def split: sum.splits)
  then have "selector_inv (output_dir_of output_name) s" by (rule run_selector_inv)
  then show ?thesis by (simp add: selector_inv_def)
qed

lemma sorted_slides_then_fallbacks:
  assumes "n < 1000" "m < 1000"
  shows "sorted (map (slide_file output_dir) [1..<n + 1] @
                 map (fallback_file output_dir) [1..<m + 1])"
proof -
  have "\<forall>x \<in> set (map (slide_file output_dir) [1..<n + 1]).
          \<forall>y \<in> set (map (fallback_file output_dir) [1..<m + 1]). x \<le> y"
    using slide_less_fallback [of output_dir] by (auto intro: less_imp_le)
  with sorted_slide_files [OF assms(1)] sorted_fallback_files [OF assms(2)]
  show ?thesis by (simp only: sorted_append)
qed

text \<open>
  Up to 999 records the three-digit padding keeps the lexical order of the names equal to
  the numeric one: when \<^verbatim>\<open>extract_best_frames\<close> returns fewer than 1000 records, the sorted
  file names of \<^verbatim>\<open>create_pdf\<close> are the file names in the order of the returned list, the
  content-aware records in the order they were accepted, then the fallback records in the
  order they were sampled.
\<close>

theorem sorted_names_selection_order:
  assumes "extract_best_frames cfg H W v output_name d0 = Inr (Some ks, d)"
    and "length ks < 1000"
  shows "files_sorted ks = map file_name ks"
proof -
  let ?dir = "output_dir_of output_name"
  from assms(1) obtain s where cp: "content_pass cfg H W v output_name d0 = Inr s"
    by (auto simp: extract_best_frames_def split: if_splits sum.splits)
  note names = content_pass_names [OF cp]
  have "sorted (map file_name ks)"
  proof (cases "length (captured s) < 3")
    case True
    with assms(1) cp obtain fb where
      fc: "fallback_capture cfg H W v ?dir (total_frames_of v) (fps_of v) (disk s)
             = Inr (fb, d)"
      and ks: "ks = merge_fallback (captured s) fb"
      by (auto simp: extract_best_frames_def split: if_splits sum.splits)
    note fnames = fallback_capture_names [OF fc]
    have "distinct (map file_name fb)"
      by (simp only: fnames(1)) (simp add: distinct_map inj_on_def fallback_file_inject)
    moreover have "\<forall>f \<in> set fb. file_name f \<notin> set (map file_name (captured s))"
    proof
      fix f assume "f \<in> set fb"
      then have "file_name f \<in> set (map file_name fb)" by simp
      then obtain k where f: "file_name f = fallback_file ?dir k"
        by (simp only: fnames(1)) auto
      show "file_name f \<notin> set (map file_name (captured s))"
      proof
        assume "file_name f \<in> set (map file_name (captured s))"
        then obtain j where "file_name f = slide_file ?dir j"
          by (simp only: names) auto
        with f show False using slide_not_fallback [of ?dir j k] by simp
      qed
    qed
    ultimately have "ks = captured s @ fb"
      using ks by (simp add: merge_fallback_append)
    then have "map file_name ks =
        map (slide_file ?dir) [1..<length (captured s) + 1] @
        map (fallback_file ?dir) [1..<length fb + 1]"
      using names fnames(1) by simp
    moreover have "length (captured s) < 1000" "length fb < 1000"
      using True fnames(2) by simp_all
    ultimately show ?thesis
      by (simp only: sorted_slides_then_fallbacks)
  next
    case False
    with assms(1) cp have ks: "ks = captured s"
      by (auto simp: extract_best_frames_def split: if_splits sum.splits)
    with assms(2) have "length (captured s) < 1000" by simp
    then have "sorted (map (slide_file ?dir) [1..<length (captured s) + 1])"
      by (rule sorted_slide_files)
    with names ks show ?thesis by simp
  qed
  then show ?thesis
    unfolding files_sorted_def by (rule sorted_sort_id)
qed

text \<open>
  The still video: one content-aware record and three fallback records, and the sorted
  names are \<^verbatim>\<open>slide_001.png\<close>, \<^verbatim>\<open>slide_fb_001.png\<close>, \<^verbatim>\<open>slide_fb_002.png\<close>, \<^verbatim>\<open>slide_fb_003.png\<close>.
\<close>

theorem sorted_names_selection_order_witness:
  "\<exists>ks d. extract_best_frames default_config demo_helpers all_written still_video ''talk''
            Map.empty = Inr (Some ks, d) \<and>
          length ks < 1000 \<and>
          files_sorted ks =
            [slide_file (output_dir_of ''talk'') 1, fallback_file (output_dir_of ''talk'') 1,
             fallback_file (output_dir_of ''talk'') 2, fallback_file (output_dir_of ''talk'') 3]"
proof -
  from still_extract obtain ks d where
    ex: "extract_best_frames default_config demo_helpers all_written still_video ''talk''
           Map.empty = Inr (Some ks, d)"
    and names: "map file_name ks =
            [slide_file (output_dir_of ''talk'') 1, fallback_file (output_dir_of ''talk'') 1,
             fallback_file (output_dir_of ''talk'') 2, fallback_file (output_dir_of ''talk'') 3]"
    by iprover
  from names have "length (map file_name ks) = 4" by simp
  then have len: "length ks < 1000" by simp
  from sorted_names_selection_order [OF ex len] names
  have "files_sorted ks =
            [slide_file (output_dir_of ''talk'') 1, fallback_file (output_dir_of ''talk'') 1,
             fallback_file (output_dir_of ''talk'') 2, fallback_file (output_dir_of ''talk'') 3]"
    by simp
  with ex len show ?thesis by iprover
qed

lemma long_slideshow_interval: "interval_frames default_config 25 = 125"
  by (simp add: interval_frames_def default_config_def py_round_def Let_def)

lemma long_slideshow_extract:
  "\<exists>s. content_pass default_config demo_helpers all_written long_slideshow ''talk''
          Map.empty = Inr s \<and>
        length (captured s) = 1000 \<and>
        map file_name (captured s) = map (slide_file (output_dir_of ''talk'')) [1..<1001] \<and>
        extract_best_frames default_config demo_helpers all_written long_slideshow ''talk''
          Map.empty = Inr (Some (captured s), disk s)"
proof -
  have r: "(25 :: real) \<noteq> 0" by simp
  from slideshow_content_pass [OF r, of 125000 "''talk''" Map.empty]
  obtain s where cp: "content_pass default_config demo_helpers all_written
      (slideshow_video 25 125000) ''talk'' Map.empty = Inr s"
    and len: "length (captured s) = 1000"
    by (auto simp: long_slideshow_interval)
  from content_pass_names [OF cp] len
  have names: "map file_name (captured s) = map (slide_file (output_dir_of ''talk'')) [1..<1001]"
    by simp
  from cp len have "extract_best_frames default_config demo_helpers all_written
      long_slideshow ''talk'' Map.empty = Inr (Some (captured s), disk s)"
    by (simp add: long_slideshow_def extract_best_frames_def slideshow_props [OF r])
  with cp len names show ?thesis
    by (intro exI [of _ s] conjI) (simp_all add: long_slideshow_def)
qed

lemma slide_1000_before_999: "slide_file output_dir 1000 < slide_file output_dir 999"
proof -
  have "fmt03 1000 @ ''.png'' < fmt03 999 @ ''.png''" by code_simp
  then show ?thesis
    unfolding slide_file_def by (simp only: append_less_cancel)
qed

text \<open>
  Claim C7.  Sorting the file names as \<^verbatim>\<open>create_pdf\<close> does should give the records in
  selection order.  It does not from the thousandth content-aware record on: \<^verbatim>\<open>{n:03d}\<close>
  pads to three digits only, and \<^verbatim>\<open>slide_1000.png\<close> sorts before \<^verbatim>\<open>slide_999.png\<close>.  The
  long slideshow has 1000 sampled frames, all sharp and all different, hence 1000 records
  named \<^verbatim>\<open>slide_001.png\<close> to \<^verbatim>\<open>slide_1000.png\<close> in selection order, and the sorted names
  are in another order.
\<close>

theorem thousand_slides_out_of_order:
  "files_sorted (frames_of (extract_best_frames default_config demo_helpers all_written
                              long_slideshow ''talk'' Map.empty))
     \<noteq> map file_name (frames_of (extract_best_frames default_config demo_helpers all_written
                                    long_slideshow ''talk'' Map.empty))"
proof
  let ?ks = "frames_of (extract_best_frames default_config demo_helpers all_written
                          long_slideshow ''talk'' Map.empty)"
  let ?dir = "output_dir_of ''talk''"
  assume eq: "files_sorted ?ks = map file_name ?ks"
  from long_slideshow_extract obtain s where
    cp: "content_pass default_config demo_helpers all_written long_slideshow ''talk''
           Map.empty = Inr s"
    and len: "length (captured s) = 1000"
    and names: "map file_name (captured s) = map (slide_file ?dir) [1..<1001]"
    and ex: "extract_best_frames default_config demo_helpers all_written long_slideshow
               ''talk'' Map.empty = Inr (Some (captured s), disk s)"
    by iprover
  have ks: "map file_name ?ks = map (slide_file ?dir) [1..<1001]"
    by (simp add: ex frames_of_def names)
  have "sorted (sort (map file_name ?ks))" by (rule sorted_sort)
  with eq have "sorted (map file_name ?ks)" by (simp add: files_sorted_def)
  then have srt: "sorted (map (slide_file ?dir) [1..<1001])" by (simp only: ks)
  have "map (slide_file ?dir) [1..<1001] ! 998 \<le> map (slide_file ?dir) [1..<1001] ! 999"
    by (rule sorted_nth_mono [OF srt]) simp_all
  then have "slide_file ?dir 999 \<le> slide_file ?dir 1000" by simp
  with slide_1000_before_999 [of ?dir] show False by simp
qed

subsection \<open>Rounding to double precision\<close>









subsection \<open>Positions of the fallback sampler\<close>














end
